theory Spec2Isabelle
  imports Complex_Main "HOL-Library.Sublist"
begin

section \<open>Strings\<close>

text \<open>
  JavaScript strings are modelled as \<^typ>\<open>string\<close>: one \<^typ>\<open>char\<close> per code unit, for
  texts whose code units lie below 256. The code compares, searches and rewrites its texts
  (endpoint paths, tokens, JSON payloads) code unit by code unit, and \<^term>\<open>length\<close> is the
  \<^verbatim>\<open>length\<close> of the language.
\<close>

text \<open>\<^verbatim>\<open>String.prototype.startsWith\<close>\<close>

fun startsWith :: "string \<Rightarrow> string \<Rightarrow> bool" where
  "startsWith s [] = True"
| "startsWith [] (p # ps) = False"
| "startsWith (c # cs) (p # ps) = (c = p \<and> startsWith cs ps)"

text \<open>\<^verbatim>\<open>String.prototype.includes\<close>: the pattern occurs at some position.\<close>

fun includes_str :: "string \<Rightarrow> string \<Rightarrow> bool" where
  "includes_str [] p = (p = [])"
| "includes_str (c # cs) p = (startsWith (c # cs) p \<or> includes_str cs p)"

section \<open>JSON values and \<^verbatim>\<open>JSON.parse\<close>\<close>

text \<open>
  The values \<^verbatim>\<open>JSON.parse\<close> produces. A number is kept as the rational its literal denotes;
  an object as its members in insertion order.
\<close>

datatype json =
    JNull
  | JBool bool
  | JNumber rat
  | JString string
  | JArray "json list"
  | JObject "(string \<times> json) list"

text \<open>
  \<^verbatim>\<open>JSON.parse\<close> is part of the language, not of the repository. It is modelled by a
  recursive-descent parser of the JSON grammar: \<^term>\<open>None\<close> stands for the SyntaxError it
  throws.
\<close>

text \<open>JSON white space.\<close>

definition is_ws :: "char \<Rightarrow> bool" where
  "is_ws c = (c = CHR '' '' \<or> c = CHR 0x09 \<or> c = CHR 0x0A \<or> c = CHR 0x0D)"

definition skip_ws :: "string \<Rightarrow> string" where
  "skip_ws s = dropWhile is_ws s"

text \<open>\<^verbatim>\<open>c.charCodeAt(0)\<close>\<close>

definition charCode :: "char \<Rightarrow> nat" where
  "charCode c = of_char c"

definition is_digit :: "char \<Rightarrow> bool" where
  "is_digit c = (48 \<le> charCode c \<and> charCode c \<le> 57)"

definition digit_val :: "char \<Rightarrow> nat" where
  "digit_val c = charCode c - 48"

fun digits_val :: "nat \<Rightarrow> string \<Rightarrow> nat" where
  "digits_val acc [] = acc"
| "digits_val acc (c # cs) = digits_val (10 * acc + digit_val c) cs"

definition hex_val :: "char \<Rightarrow> nat option" where
  "hex_val c =
     (if is_digit c then Some (charCode c - 48)
      else if 97 \<le> charCode c \<and> charCode c \<le> 102 then Some (charCode c - 87)
      else if 65 \<le> charCode c \<and> charCode c \<le> 70 then Some (charCode c - 55)
      else None)"

text \<open>
  The code unit denoted by a \<^verbatim>\<open>\uXXXX\<close> escape. Code units from 256 on lie outside the
  modelled alphabet; a text that denotes one is not accepted by this model of the parser.
\<close>

definition code_unit :: "nat \<Rightarrow> char option" where
  "code_unit n = (if n < 256 then Some (char_of n) else None)"

text \<open>The character a two-character escape denotes.\<close>

definition unescape :: "char \<Rightarrow> char option" where
  "unescape e =
     (if e = CHR 0x22 then Some (CHR 0x22)
      else if e = CHR 0x5C then Some (CHR 0x5C)
      else if e = CHR ''/'' then Some (CHR ''/'')
      else if e = CHR ''b'' then Some (CHR 0x08)
      else if e = CHR ''f'' then Some (CHR 0x0C)
      else if e = CHR ''n'' then Some (CHR 0x0A)
      else if e = CHR ''r'' then Some (CHR 0x0D)
      else if e = CHR ''t'' then Some (CHR 0x09)
      else None)"

text \<open>
  A string literal after its opening quote: the string it denotes and the text after the
  closing quote. A raw code unit below 0x20 is not allowed inside.
\<close>

fun parse_string_body :: "string \<Rightarrow> (string \<times> string) option" where
  "parse_string_body [] = None"
| "parse_string_body (c # cs) =
     (if c = CHR 0x22 then Some ([], cs)
      else if c = CHR 0x5C then
        (case cs of
           [] \<Rightarrow> None
         | e # r \<Rightarrow>
             if e = CHR ''u'' then
               (case r of
                  h1 # h2 # h3 # h4 # r' \<Rightarrow>
                    (case (hex_val h1, hex_val h2, hex_val h3, hex_val h4) of
                       (Some a, Some b, Some c', Some d) \<Rightarrow>
                         (case code_unit (4096 * a + 256 * b + 16 * c' + d) of
                            None \<Rightarrow> None
                          | Some x \<Rightarrow> map_option (\<lambda>(t, rest). (x # t, rest)) (parse_string_body r'))
                     | _ \<Rightarrow> None)
                | _ \<Rightarrow> None)
             else
               (case unescape e of
                  None \<Rightarrow> None
                | Some x \<Rightarrow> map_option (\<lambda>(t, rest). (x # t, rest)) (parse_string_body r)))
      else if charCode c < 0x20 then None
      else map_option (\<lambda>(t, rest). (c # t, rest)) (parse_string_body cs))"

text \<open>Number literals: an integer part, an optional fraction, an optional exponent.\<close>

definition pow10 :: "int \<Rightarrow> rat" where
  "pow10 e = (if 0 \<le> e then 10 ^ nat e else 1 / 10 ^ nat (- e))"

text \<open>The fraction and exponent parts that may follow the integer part of a number.\<close>

definition parse_fraction :: "string \<Rightarrow> (rat \<times> string) option" where
  "parse_fraction s =
     (case s of
        [] \<Rightarrow> Some (0, s)
      | c # r \<Rightarrow>
          if c = CHR ''.'' then
            (let ds = takeWhile is_digit r in
             if ds = [] then None
             else Some (of_nat (digits_val 0 ds) / 10 ^ length ds, dropWhile is_digit r))
          else Some (0, s))"

definition parse_exponent :: "string \<Rightarrow> (int \<times> string) option" where
  "parse_exponent s =
     (case s of
        [] \<Rightarrow> Some (0, s)
      | c # r \<Rightarrow>
          if c = CHR ''e'' \<or> c = CHR ''E'' then
            (let (neg, r1) =
                   (case r of
                      [] \<Rightarrow> (False, r)
                    | g # r' \<Rightarrow>
                        if g = CHR ''-'' then (True, r')
                        else if g = CHR ''+'' then (False, r')
                        else (False, r));
                 ds = takeWhile is_digit r1
             in if ds = [] then None
                else Some ((if neg then - int (digits_val 0 ds) else int (digits_val 0 ds)),
                           dropWhile is_digit r1))
          else Some (0, s))"

definition parse_unsigned :: "string \<Rightarrow> (rat \<times> string) option" where
  "parse_unsigned s =
     (case s of
        [] \<Rightarrow> None
      | c # r \<Rightarrow>
          if \<not> is_digit c then None
          else
            (let (ip, r1) =
                   (if c = CHR ''0'' then (0, r)
                    else (digits_val 0 (takeWhile is_digit s), dropWhile is_digit s))
             in case parse_fraction r1 of
                  None \<Rightarrow> None
                | Some (fp, r2) \<Rightarrow>
                    (case parse_exponent r2 of
                       None \<Rightarrow> None
                     | Some (e, r3) \<Rightarrow> Some ((of_nat ip + fp) * pow10 e, r3))))"

definition parse_number :: "string \<Rightarrow> (rat \<times> string) option" where
  "parse_number s =
     (case s of
        [] \<Rightarrow> None
      | c # r \<Rightarrow>
          if c = CHR ''-'' then map_option (\<lambda>(q, rest). (- q, rest)) (parse_unsigned r)
          else parse_unsigned s)"

text \<open>Object members keep insertion order; a repeated key overwrites the value in place.\<close>

fun obj_set :: "(string \<times> json) list \<Rightarrow> string \<Rightarrow> json \<Rightarrow> (string \<times> json) list" where
  "obj_set [] k v = [(k, v)]"
| "obj_set ((k', v') # kvs) k v = (if k' = k then (k, v) # kvs else (k', v') # obj_set kvs k v)"

text \<open>
  The parser of values, of the elements of an array after the first bracket, and of the
  members of an object after the first brace; it returns the value and the text left. The
  tests on lengths in its definition make its termination evident; they hold of every
  result (lemma \<open>parse_json_shorter\<close> below), so they never decide the outcome.
\<close>

datatype ctx = Value | Elements "json list" | Members "(string \<times> json) list"

lemma length_skip_ws [simp]: "length (skip_ws s) \<le> length s"
  by (simp add: skip_ws_def length_dropWhile_le)

lemma skip_ws_Cons_length: "skip_ws s = d # r \<Longrightarrow> length r < length s"
  using length_skip_ws [of s] by simp

lemma length_skip_ws_eq: "length (skip_ws s) = length s - length (takeWhile is_ws s)"
proof -
  have "length (takeWhile is_ws s @ dropWhile is_ws s) = length s"
    by simp
  then show ?thesis
    unfolding skip_ws_def length_append by linarith
qed

function parse_json :: "ctx \<Rightarrow> string \<Rightarrow> (json \<times> string) option" where
  "parse_json Value [] = None"
| "parse_json Value (c # cs) =
     (if c = CHR ''{'' then
        (case skip_ws cs of
           [] \<Rightarrow> None
         | d # r \<Rightarrow> if d = CHR ''}'' then Some (JObject [], r) else parse_json (Members []) (skip_ws cs))
      else if c = CHR ''['' then
        (case skip_ws cs of
           [] \<Rightarrow> None
         | d # r \<Rightarrow> if d = CHR '']'' then Some (JArray [], r) else parse_json (Elements []) (skip_ws cs))
      else if c = CHR 0x22 then map_option (\<lambda>(t, r). (JString t, r)) (parse_string_body cs)
      else if c = CHR ''-'' \<or> is_digit c then map_option (\<lambda>(q, r). (JNumber q, r)) (parse_number (c # cs))
      else if startsWith (c # cs) ''true'' then Some (JBool True, drop 4 (c # cs))
      else if startsWith (c # cs) ''false'' then Some (JBool False, drop 5 (c # cs))
      else if startsWith (c # cs) ''null'' then Some (JNull, drop 4 (c # cs))
      else None)"
| "parse_json (Elements acc) s =
     (case parse_json Value s of
        None \<Rightarrow> None
      | Some (v, r) \<Rightarrow>
          if length r < length s then
            (case skip_ws r of
               [] \<Rightarrow> None
             | d # r' \<Rightarrow>
                 if d = CHR '','' then parse_json (Elements (acc @ [v])) (skip_ws r')
                 else if d = CHR '']'' then Some (JArray (acc @ [v]), r')
                 else None)
          else None)"
| "parse_json (Members acc) s =
     (case s of
        [] \<Rightarrow> None
      | q # cs \<Rightarrow>
          if q \<noteq> CHR 0x22 then None
          else
            (case parse_string_body cs of
               None \<Rightarrow> None
             | Some (key, r) \<Rightarrow>
                 (case skip_ws r of
                    [] \<Rightarrow> None
                  | d # r1 \<Rightarrow>
                      if d = CHR '':'' \<and> length (skip_ws r1) < length s then
                        (case parse_json Value (skip_ws r1) of
                           None \<Rightarrow> None
                         | Some (v, r2) \<Rightarrow>
                             if length r2 < length s then
                               (case skip_ws r2 of
                                  [] \<Rightarrow> None
                                | e # r3 \<Rightarrow>
                                    if e = CHR '','' then parse_json (Members (obj_set acc key v)) (skip_ws r3)
                                    else if e = CHR ''}'' then Some (JObject (obj_set acc key v), r3)
                                    else None)
                             else None)
                      else None)))"
  by pat_completeness auto
termination
  by (relation "measure (\<lambda>(k, s). 2 * length s + (case k of Value \<Rightarrow> 0 | _ \<Rightarrow> 1))")
     (auto simp: length_skip_ws_eq dest!: skip_ws_Cons_length)

text \<open>\<^verbatim>\<open>JSON.parse(text)\<close>: one value, with nothing but white space around it.\<close>

definition JSON_parse :: "string \<Rightarrow> json option" where
  "JSON_parse txt =
     (case parse_json Value (skip_ws txt) of
        None \<Rightarrow> None
      | Some (v, r) \<Rightarrow> if skip_ws r = [] then Some v else None)"


section \<open>JavaScript values\<close>

text \<open>
  A JavaScript value that the modelled code handles is a parsed JSON value or
  \<^verbatim>\<open>undefined\<close>: the type \<^typ>\<open>json option\<close>, with \<^term>\<open>None\<close> for
  \<^verbatim>\<open>undefined\<close>.
\<close>

text \<open>Truthiness: \<^verbatim>\<open>!!v\<close>.\<close>

fun truthy :: "json \<Rightarrow> bool" where
  "truthy JNull = False"
| "truthy (JBool b) = b"
| "truthy (JNumber q) = (q \<noteq> 0)"
| "truthy (JString s) = (s \<noteq> [])"
| "truthy (JArray xs) = True"
| "truthy (JObject kvs) = True"

definition truthy_opt :: "json option \<Rightarrow> bool" where
  "truthy_opt v = (case v of None \<Rightarrow> False | Some j \<Rightarrow> truthy j)"

text \<open>\<^verbatim>\<open>typeof v === 'object'\<close> (true of \<^verbatim>\<open>null\<close> and of arrays as well).\<close>

fun typeof_object :: "json \<Rightarrow> bool" where
  "typeof_object JNull = True"
| "typeof_object (JArray xs) = True"
| "typeof_object (JObject kvs) = True"
| "typeof_object v = False"

text \<open>\<^verbatim>\<open>typeof v === 'string'\<close>\<close>

fun typeof_string :: "json \<Rightarrow> bool" where
  "typeof_string (JString s) = True"
| "typeof_string v = False"

text \<open>
  Reading a property \<^verbatim>\<open>v.key\<close> of a value other than \<^verbatim>\<open>null\<close>, for the keys the code
  reads (\<^verbatim>\<open>token\<close>, \<^verbatim>\<open>timestamp\<close>, \<^verbatim>\<open>user\<close>, \<^verbatim>\<open>message\<close>, \<^verbatim>\<open>username\<close>,
  \<^verbatim>\<open>password\<close>): only an object can have them.
\<close>

fun get_prop :: "json \<Rightarrow> string \<Rightarrow> json option" where
  "get_prop (JObject kvs) key = map_of kvs key"
| "get_prop v key = None"

text \<open>An exception value: its \<^verbatim>\<open>name\<close> and its \<^verbatim>\<open>message\<close>.\<close>

datatype js_error = JsError (err_name: string) (err_message: string)

abbreviation Error :: "string \<Rightarrow> js_error" where
  "Error m \<equiv> JsError ''Error'' m"

abbreviation TypeError :: "string \<Rightarrow> js_error" where
  "TypeError m \<equiv> JsError ''TypeError'' m"

text \<open>Reading a property of any value: on \<^verbatim>\<open>null\<close> the read throws a TypeError.\<close>

definition read_prop :: "json \<Rightarrow> string \<Rightarrow> js_error + json option" where
  "read_prop v key =
     (case v of
        JNull \<Rightarrow> Inl (TypeError (''Cannot read properties of null (reading '' @ key @ '')''))
      | _ \<Rightarrow> Inr (get_prop v key))"

text \<open>
  Numbers. Timestamps and ages are integers of milliseconds far below \<open>2\<^sup>5\<^sup>3\<close>, where the
  arithmetic of the language is exact; the model computes with exact rationals and keeps
  the three values that are not rationals.
\<close>

datatype number = Num rat | NaN | PosInfinity | NegInfinity

text \<open>\<^verbatim>\<open>a - b\<close>\<close>

fun number_minus :: "number \<Rightarrow> number \<Rightarrow> number" where
  "number_minus (Num a) (Num b) = Num (a - b)"
| "number_minus NaN b = NaN"
| "number_minus a NaN = NaN"
| "number_minus PosInfinity PosInfinity = NaN"
| "number_minus NegInfinity NegInfinity = NaN"
| "number_minus PosInfinity b = PosInfinity"
| "number_minus NegInfinity b = NegInfinity"
| "number_minus (Num a) PosInfinity = NegInfinity"
| "number_minus (Num a) NegInfinity = PosInfinity"

text \<open>\<^verbatim>\<open>a > b\<close>\<close>

fun number_gt :: "number \<Rightarrow> number \<Rightarrow> bool" where
  "number_gt (Num a) (Num b) = (a > b)"
| "number_gt NaN b = False"
| "number_gt a NaN = False"
| "number_gt PosInfinity PosInfinity = False"
| "number_gt PosInfinity b = True"
| "number_gt NegInfinity b = False"
| "number_gt (Num a) PosInfinity = False"
| "number_gt (Num a) NegInfinity = True"

text \<open>
  The parts of the language runtime that the code relies on and that are not modelled in
  full are parameters: the conversion to a number of a string, an array or an object, the
  conversion to a string of a number, an array or an object, and the message of the
  SyntaxError that \<^verbatim>\<open>JSON.parse\<close> throws on a text.
\<close>

record runtime =
  number_of :: "json \<Rightarrow> number"
  string_of :: "json \<Rightarrow> string"
  syntax_message :: "string \<Rightarrow> string"

text \<open>\<^verbatim>\<open>ToNumber(v)\<close>, as applied by \<^verbatim>\<open>Date.now() - v\<close>.\<close>

definition ToNumber :: "runtime \<Rightarrow> json \<Rightarrow> number" where
  "ToNumber rt v =
     (case v of
        JNull \<Rightarrow> Num 0
      | JBool b \<Rightarrow> Num (if b then 1 else 0)
      | JNumber q \<Rightarrow> Num q
      | _ \<Rightarrow> number_of rt v)"

text \<open>\<^verbatim>\<open>ToString(v)\<close>, as applied by template literals and by \<^verbatim>\<open>new Error(v)\<close>.\<close>

definition ToString :: "runtime \<Rightarrow> json \<Rightarrow> string" where
  "ToString rt v =
     (case v of
        JNull \<Rightarrow> ''null''
      | JBool b \<Rightarrow> (if b then ''true'' else ''false'')
      | JString s \<Rightarrow> s
      | _ \<Rightarrow> string_of rt v)"

section \<open>\<^verbatim>\<open>JSON.stringify\<close> of a token record\<close>

definition digit_char :: "nat \<Rightarrow> char" where
  "digit_char d = char_of (48 + d)"

fun digits_of :: "nat \<Rightarrow> string" where
  "digits_of n = (if n < 10 then [digit_char n] else digits_of (n div 10) @ [digit_char (n mod 10)])"

declare digits_of.simps [simp del]

definition stringify_int :: "int \<Rightarrow> string" where
  "stringify_int n = (if n < 0 then CHR ''-'' # digits_of (nat (- n)) else digits_of (nat n))"

definition hex_char :: "nat \<Rightarrow> char" where
  "hex_char d = (if d < 10 then char_of (48 + d) else char_of (87 + d))"

text \<open>\<^verbatim>\<open>QuoteJSONString\<close>: the escapes of one code unit.\<close>

definition quote_char :: "char \<Rightarrow> string" where
  "quote_char c =
     (if c = CHR 0x22 then [CHR 0x5C, CHR 0x22]
      else if c = CHR 0x5C then [CHR 0x5C, CHR 0x5C]
      else if c = CHR 0x08 then [CHR 0x5C, CHR ''b'']
      else if c = CHR 0x0C then [CHR 0x5C, CHR ''f'']
      else if c = CHR 0x0A then [CHR 0x5C, CHR ''n'']
      else if c = CHR 0x0D then [CHR 0x5C, CHR ''r'']
      else if c = CHR 0x09 then [CHR 0x5C, CHR ''t'']
      else if charCode c < 0x20 then
        [CHR 0x5C, CHR ''u'', CHR ''0'', CHR ''0'', hex_char (charCode c div 16), hex_char (charCode c mod 16)]
      else [c])"

definition JSON_quote :: "string \<Rightarrow> string" where
  "JSON_quote s = CHR 0x22 # concat (map quote_char s) @ [CHR 0x22]"

text \<open>
  \<^verbatim>\<open>JSON.stringify({ token, timestamp: Date.now() })\<close> for a string \<open>token\<close> and the
  integer \<open>now\<close> that \<^verbatim>\<open>Date.now()\<close> returned.
\<close>

definition stringify_tokenData :: "string \<Rightarrow> int \<Rightarrow> string" where
  "stringify_tokenData token now =
     ''{'' @ JSON_quote ''token'' @ '':'' @ JSON_quote token @ '','' @
     JSON_quote ''timestamp'' @ '':'' @ stringify_int now @ ''}''"

section \<open>\<^verbatim>\<open>localStorage\<close>\<close>

text \<open>
  The one entry of \<^verbatim>\<open>localStorage\<close> the code uses, under the key
  \<^verbatim>\<open>esp32_auth_token\<close>. Every access throws when storage is not accessible (disabled
  storage), and \<^verbatim>\<open>setItem\<close> throws when the quota is exceeded.
\<close>

record local_storage =
  entry :: "string option"
  accessible :: bool
  quota_left :: bool

definition getItem :: "local_storage \<Rightarrow> js_error + string option" where
  "getItem ls = (if accessible ls then Inr (entry ls) else Inl (JsError ''SecurityError'' ''storage is disabled''))"

definition setItem :: "string \<Rightarrow> local_storage \<Rightarrow> js_error + local_storage" where
  "setItem v ls =
     (if \<not> accessible ls then Inl (JsError ''SecurityError'' ''storage is disabled'')
      else if \<not> quota_left ls then Inl (JsError ''QuotaExceededError'' ''quota exceeded'')
      else Inr (ls\<lparr>entry := Some v\<rparr>))"

definition removeItem :: "local_storage \<Rightarrow> js_error + local_storage" where
  "removeItem ls =
     (if accessible ls then Inr (ls\<lparr>entry := None\<rparr>)
      else Inl (JsError ''SecurityError'' ''storage is disabled''))"

section \<open>src/utils/TokenManager.js\<close>

text \<open>
  Every method returns its result paired with the storage it leaves. The console output
  of the token manager is not modelled.
\<close>

text \<open>
  \<^verbatim>\<open>storeToken(token)\<close>, with the value \<open>now\<close> of \<^verbatim>\<open>Date.now()\<close>. The test
  \<^verbatim>\<open>!token || typeof token !== 'string'\<close> lets through the non-empty strings and nothing
  else; the \<^verbatim>\<open>catch\<close> block is reached from that test and when \<^verbatim>\<open>setItem\<close> throws.
\<close>

definition storeToken :: "int \<Rightarrow> json option \<Rightarrow> local_storage \<Rightarrow> bool \<times> local_storage" where
  "storeToken now token ls =
     (case token of
        Some (JString t) \<Rightarrow>
          if t = [] then (False, ls)
          else
            (case setItem (stringify_tokenData t now) ls of
               Inl e \<Rightarrow> (False, ls)
             | Inr ls' \<Rightarrow> (True, ls'))
      | _ \<Rightarrow> (False, ls))"

text \<open>\<^verbatim>\<open>clearStoredToken()\<close>\<close>

definition clearStoredToken :: "local_storage \<Rightarrow> bool \<times> local_storage" where
  "clearStoredToken ls =
     (case removeItem ls of
        Inl e \<Rightarrow> (False, ls)
      | Inr ls' \<Rightarrow> (True, ls'))"

text \<open>
  \<^verbatim>\<open>getTokenData()\<close>: the parsed record, or \<^verbatim>\<open>null\<close> (\<^term>\<open>None\<close>). The \<^verbatim>\<open>catch\<close> block
  is reached when \<^verbatim>\<open>getItem\<close> or \<^verbatim>\<open>JSON.parse\<close> throws.
\<close>

definition getTokenData :: "local_storage \<Rightarrow> json option \<times> local_storage" where
  "getTokenData ls =
     (case getItem ls of
        Inl e \<Rightarrow> (None, snd (clearStoredToken ls))
      | Inr None \<Rightarrow> (None, ls)
      | Inr (Some storedData) \<Rightarrow>
          if storedData = [] then (None, ls)
          else
            (case JSON_parse storedData of
               None \<Rightarrow> (None, snd (clearStoredToken ls))
             | Some parsed \<Rightarrow>
                 if \<not> truthy parsed \<or> \<not> typeof_object parsed \<or> \<not> truthy_opt (get_prop parsed ''token'')
                 then (None, snd (clearStoredToken ls))
                 else (Some parsed, ls)))"

text \<open>\<^verbatim>\<open>getStoredToken()\<close>: the same checks, returning \<^verbatim>\<open>parsed.token\<close>.\<close>

definition getStoredToken :: "local_storage \<Rightarrow> json option \<times> local_storage" where
  "getStoredToken ls =
     (case getItem ls of
        Inl e \<Rightarrow> (None, snd (clearStoredToken ls))
      | Inr None \<Rightarrow> (None, ls)
      | Inr (Some storedData) \<Rightarrow>
          if storedData = [] then (None, ls)
          else
            (case JSON_parse storedData of
               None \<Rightarrow> (None, snd (clearStoredToken ls))
             | Some parsed \<Rightarrow>
                 if \<not> truthy parsed \<or> \<not> typeof_object parsed \<or> \<not> truthy_opt (get_prop parsed ''token'')
                 then (None, snd (clearStoredToken ls))
                 else (get_prop parsed ''token'', ls)))"

text \<open>\<^verbatim>\<open>hasStoredToken()\<close>: \<^verbatim>\<open>!!this.getStoredToken()\<close>\<close>

definition hasStoredToken :: "local_storage \<Rightarrow> bool \<times> local_storage" where
  "hasStoredToken ls = (let (token, ls') = getStoredToken ls in (truthy_opt token, ls'))"

text \<open>\<^verbatim>\<open>getTokenAge()\<close>, with the value \<open>now\<close> of \<^verbatim>\<open>Date.now()\<close>; \<^term>\<open>None\<close> is \<^verbatim>\<open>null\<close>.\<close>

definition getTokenAge :: "runtime \<Rightarrow> int \<Rightarrow> local_storage \<Rightarrow> number option \<times> local_storage" where
  "getTokenAge rt now ls =
     (let (tokenData, ls') = getTokenData ls in
      case tokenData of
        None \<Rightarrow> (None, ls')
      | Some td \<Rightarrow>
          (case get_prop td ''timestamp'' of
             None \<Rightarrow> (None, ls')
           | Some ts \<Rightarrow>
               if \<not> truthy ts then (None, ls')
               else (Some (number_minus (Num (of_int now)) (ToNumber rt ts)), ls')))"

text \<open>\<^verbatim>\<open>isTokenExpired(maxAge)\<close>: \<^verbatim>\<open>age !== null && age > maxAge\<close>\<close>

definition isTokenExpired :: "runtime \<Rightarrow> int \<Rightarrow> number \<Rightarrow> local_storage \<Rightarrow> bool \<times> local_storage" where
  "isTokenExpired rt now maxAge ls =
     (let (age, ls') = getTokenAge rt now ls in
      case age of
        None \<Rightarrow> (False, ls')
      | Some a \<Rightarrow> (number_gt a maxAge, ls'))"

section \<open>src/config/apiConfig.js\<close>

definition LOGIN :: string where "LOGIN = ''/api/login''"
definition LOGOUT :: string where "LOGOUT = ''/api/logout''"
definition VALIDATE_TOKEN :: string where "VALIDATE_TOKEN = ''/api/validate-token''"
definition REFRESH_TOKEN :: string where "REFRESH_TOKEN = ''/api/refresh-token''"
definition MODE :: string where "MODE = ''/api/mode''"
definition STATUS :: string where "STATUS = ''/api/status''"
definition HEALTH :: string where "HEALTH = ''/api/health''"

definition PUBLIC_ENDPOINTS :: "string list" where
  "PUBLIC_ENDPOINTS = [''/api/login'', ''/api/health'', ''/api/status'']"

text \<open>
  \<^verbatim>\<open>isPublicEndpoint(endpoint)\<close>:
  \<^verbatim>\<open>PUBLIC_ENDPOINTS.some(publicEndpoint => endpoint.includes(publicEndpoint))\<close>
\<close>

definition isPublicEndpoint :: "string \<Rightarrow> bool" where
  "isPublicEndpoint endpoint = list_ex (\<lambda>publicEndpoint. includes_str endpoint publicEndpoint) PUBLIC_ENDPOINTS"

section \<open>src/utils/HttpClient.js: endpoint classification\<close>

text \<open>\<^verbatim>\<open>isLoginRequest(url)\<close>: \<^verbatim>\<open>url.includes(API_CONFIG.ENDPOINTS.LOGIN)\<close>\<close>

definition isLoginRequest :: "string \<Rightarrow> bool" where
  "isLoginRequest url = includes_str url LOGIN"

text \<open>\<^verbatim>\<open>requiresAuth(url)\<close>: \<^verbatim>\<open>url.startsWith('/api/') && !isPublicEndpoint(url)\<close>\<close>

definition requiresAuth :: "string \<Rightarrow> bool" where
  "requiresAuth url = (startsWith url ''/api/'' \<and> \<not> isPublicEndpoint url)"

section \<open>src/features/Auth/AuthSlice.js: the session state and its reducer\<close>

text \<open>
  The authentication slice of the Redux store. \<^term>\<open>None\<close> stands for \<^verbatim>\<open>null\<close> (and for
  \<^verbatim>\<open>undefined\<close>, which the state never tells apart).
\<close>

record auth_state =
  token :: "json option"
  isAuthenticated :: bool
  isLoading :: bool
  isInitializing :: bool
  error :: "string option"
  user :: "json option"

definition initialState :: auth_state where
  "initialState =
     \<lparr>token = None, isAuthenticated = False, isLoading = False, isInitializing = True,
      error = None, user = None\<rparr>"

text \<open>
  The actions the reducer handles. A fulfilled login carries the server's data, a fulfilled
  initialisation the token and the user, a rejected thunk the value given to
  \<^verbatim>\<open>rejectWithValue\<close>; \<open>OtherAction\<close> is an action of another slice.
\<close>

datatype action =
    ClearAuthError
  | ClearAuthToken
  | SetAuthFromToken "json option" "json option"
  | LoginPending
  | LoginFulfilled json
  | LoginRejected string
  | LogoutPending
  | LogoutFulfilled
  | LogoutRejected string
  | InitPending
  | InitFulfilled "json option" "json option"
  | InitRejected string
  | OtherAction string

text \<open>
  The parts of the browser and of the store that the code reads and writes: the storage,
  the requests handed to \<^verbatim>\<open>fetch\<close> (oldest first), the \<^verbatim>\<open>auth-error\<close> events dispatched
  on the window, the flag \<^verbatim>\<open>window.__authErrorListenerSet\<close>, the session state, and the
  lines written with \<^verbatim>\<open>console.error\<close> by the response parser (label and argument).
\<close>

record http_request =
  req_method :: string
  req_url :: string
  req_authorization :: "string option"
  req_body :: "json option"

record world =
  storage :: local_storage
  sent :: "http_request list"
  auth_events :: "(nat \<times> string) list"
  listenerSet :: bool
  auth :: auth_state
  console :: "(string \<times> string) list"

text \<open>\<^verbatim>\<open>v || null\<close>\<close>

definition or_null :: "json option \<Rightarrow> json option" where
  "or_null v = (if truthy_opt v then v else None)"

text \<open>\<^verbatim>\<open>payload || fallback\<close> for a string payload.\<close>

definition or_default :: "string \<Rightarrow> string \<Rightarrow> string" where
  "or_default payload fallback = (if payload = [] then fallback else payload)"

text \<open>
  The reducer of the slice. \<^verbatim>\<open>clearAuthToken\<close> also calls
  \<^verbatim>\<open>TokenManager.clearStoredToken()\<close>, so the reducer acts on the storage too.
\<close>

fun authReducer :: "action \<Rightarrow> world \<Rightarrow> world" where
  "authReducer ClearAuthError w = w\<lparr>auth := (auth w)\<lparr>error := None\<rparr>\<rparr>"
| "authReducer ClearAuthToken w =
     w\<lparr>auth := (auth w)\<lparr>token := None, isAuthenticated := False, user := None\<rparr>,
       storage := snd (clearStoredToken (storage w))\<rparr>"
| "authReducer (SetAuthFromToken tok usr) w =
     w\<lparr>auth := (auth w)\<lparr>token := tok, isAuthenticated := truthy_opt tok, user := or_null usr\<rparr>\<rparr>"
| "authReducer LoginPending w = w\<lparr>auth := (auth w)\<lparr>isLoading := True, error := None\<rparr>\<rparr>"
| "authReducer (LoginFulfilled payload) w =
     w\<lparr>auth := (auth w)\<lparr>isLoading := False, token := get_prop payload ''token'',
                         isAuthenticated := True, user := or_null (get_prop payload ''user''),
                         error := None\<rparr>\<rparr>"
| "authReducer (LoginRejected payload) w =
     w\<lparr>auth := (auth w)\<lparr>isLoading := False, token := None, isAuthenticated := False, user := None,
                         error := Some (or_default payload ''Login failed'')\<rparr>\<rparr>"
| "authReducer LogoutPending w = w\<lparr>auth := (auth w)\<lparr>isLoading := True, error := None\<rparr>\<rparr>"
| "authReducer LogoutFulfilled w =
     w\<lparr>auth := (auth w)\<lparr>isLoading := False, token := None, isAuthenticated := False, user := None,
                         error := None\<rparr>\<rparr>"
| "authReducer (LogoutRejected payload) w =
     w\<lparr>auth := (auth w)\<lparr>isLoading := False, token := None, isAuthenticated := False, user := None,
                         error := Some (or_default payload ''Logout failed'')\<rparr>\<rparr>"
| "authReducer InitPending w = w\<lparr>auth := (auth w)\<lparr>isInitializing := True, error := None\<rparr>\<rparr>"
| "authReducer (InitFulfilled tok usr) w =
     w\<lparr>auth := (auth w)\<lparr>isInitializing := False, token := tok, isAuthenticated := truthy_opt tok,
                         user := usr, error := None\<rparr>\<rparr>"
| "authReducer (InitRejected payload) w =
     w\<lparr>auth := (auth w)\<lparr>isInitializing := False, token := None, isAuthenticated := False, user := None,
                         error := Some (or_default payload ''Initialization failed'')\<rparr>\<rparr>"
| "authReducer (OtherAction ty) w = w"

section \<open>src/middleware/authMiddleware.js and the store's dispatch\<close>

text \<open>
  \<^verbatim>\<open>store.dispatch(clearAuthToken())\<close>: the action passes the two middlewares and the
  reducer; it is not one of the actions whose token age is checked, and
  \<^verbatim>\<open>authMiddleware\<close> installs its listener once the action has passed.
\<close>

definition dispatch_clearAuthToken :: "world \<Rightarrow> world" where
  "dispatch_clearAuthToken w = (authReducer ClearAuthToken w)\<lparr>listenerSet := True\<rparr>"

text \<open>The actions \<^verbatim>\<open>tokenValidationMiddleware\<close> checks the token age after.\<close>

fun actionsToCheck :: "action \<Rightarrow> bool" where
  "actionsToCheck (LoginFulfilled payload) = True"
| "actionsToCheck (InitFulfilled tok usr) = True"
| "actionsToCheck a = False"

text \<open>\<open>24 * 60 * 60 * 1000\<close>\<close>

definition maxAge24h :: number where
  "maxAge24h = Num 86400000"

text \<open>
  \<^verbatim>\<open>tokenValidationMiddleware\<close>, after \<^verbatim>\<open>next(action)\<close>; \<open>now\<close> is the value of
  \<^verbatim>\<open>Date.now()\<close> read by \<^verbatim>\<open>isTokenExpired\<close>.
\<close>

definition tokenValidationMiddleware :: "runtime \<Rightarrow> int \<Rightarrow> action \<Rightarrow> world \<Rightarrow> world" where
  "tokenValidationMiddleware rt now a w =
     (let w1 = authReducer a w in
      if actionsToCheck a then
        (let (expired, ls) = isTokenExpired rt now maxAge24h (storage w1);
             w2 = w1\<lparr>storage := ls\<rparr>
         in if expired then dispatch_clearAuthToken w2 else w2)
      else w1)"

text \<open>
  \<^verbatim>\<open>store.dispatch(action)\<close>: \<^verbatim>\<open>authMiddleware\<close> calls \<^verbatim>\<open>next(action)\<close> and then
  installs the \<^verbatim>\<open>auth-error\<close> listener if it is not installed yet.
\<close>

definition dispatch :: "runtime \<Rightarrow> int \<Rightarrow> action \<Rightarrow> world \<Rightarrow> world" where
  "dispatch rt now a w = (tokenValidationMiddleware rt now a w)\<lparr>listenerSet := True\<rparr>"

text \<open>
  \<^verbatim>\<open>window.dispatchEvent(new CustomEvent('auth-error', {detail: {status, url}}))\<close>: the
  event is recorded, and the listener of \<^verbatim>\<open>authMiddleware\<close>, when installed, runs at once.
\<close>

definition dispatchEvent_auth_error :: "nat \<Rightarrow> string \<Rightarrow> world \<Rightarrow> world" where
  "dispatchEvent_auth_error st url w =
     (let w1 = w\<lparr>auth_events := auth_events w @ [(st, url)]\<rparr> in
      if listenerSet w1 \<and> (st = 401 \<or> st = 403) then dispatch_clearAuthToken w1 else w1)"

section \<open>src/utils/HttpClient.js\<close>

record response =
  status :: nat
  content_length :: "string option"
  content_type :: "string option"
  body_text :: string

text \<open>\<^verbatim>\<open>response.ok\<close>\<close>

definition ok :: "response \<Rightarrow> bool" where
  "ok r = (200 \<le> status r \<and> status r \<le> 299)"

text \<open>What \<^verbatim>\<open>await fetch(...)\<close> gives: a rejection or a response.\<close>

datatype fetch_result = Rejects js_error | Resolves response

record request_options =
  opt_method :: string
  opt_body :: "json option"
  skipAuth :: bool

text \<open>
  \<^verbatim>\<open>request(url, options)\<close> up to the call of \<^verbatim>\<open>fetch\<close>: the request to transmit, or the
  error thrown before anything is transmitted.
\<close>

definition request_prepare :: "runtime \<Rightarrow> string \<Rightarrow> request_options \<Rightarrow> world \<Rightarrow> (js_error + http_request) \<times> world" where
  "request_prepare rt url options w =
     (let req = \<lparr>req_method = opt_method options, req_url = url, req_authorization = None,
                 req_body = opt_body options\<rparr>
      in if \<not> skipAuth options \<and> \<not> isLoginRequest url then
           (let (tok, ls) = getStoredToken (storage w);
                w1 = w\<lparr>storage := ls\<rparr>
            in case tok of
                 Some t \<Rightarrow>
                   if truthy t then (Inr (req\<lparr>req_authorization := Some (''Bearer '' @ ToString rt t)\<rparr>), w1)
                   else if requiresAuth url
                     then (Inl (Error ''Authentication required but no token available''), w1)
                     else (Inr req, w1)
               | None \<Rightarrow>
                   if requiresAuth url
                     then (Inl (Error ''Authentication required but no token available''), w1)
                     else (Inr req, w1))
         else (Inr req, w))"

text \<open>\<^verbatim>\<open>request(url, options)\<close> from the result of \<^verbatim>\<open>fetch\<close> on.\<close>

definition request_respond :: "string \<Rightarrow> fetch_result \<Rightarrow> world \<Rightarrow> (js_error + response) \<times> world" where
  "request_respond url fr w =
     (case fr of
        Rejects e \<Rightarrow> (Inl e, w)
      | Resolves r \<Rightarrow>
          if status r = 401 \<or> status r = 403 then
            (let w1 = w\<lparr>storage := snd (clearStoredToken (storage w))\<rparr>;
                 w2 = dispatchEvent_auth_error (status r) url w1
             in (Inl (Error (''Authentication failed: '' @ digits_of (status r))), w2))
          else (Inr r, w))"

text \<open>The whole of \<^verbatim>\<open>request\<close>, against a network \<open>net\<close> that answers each request.\<close>

definition request :: "runtime \<Rightarrow> (http_request \<Rightarrow> fetch_result) \<Rightarrow> string \<Rightarrow> request_options \<Rightarrow> world \<Rightarrow> (js_error + response) \<times> world" where
  "request rt net url options w =
     (case request_prepare rt url options w of
        (Inl e, w1) \<Rightarrow> (Inl e, w1)
      | (Inr req, w1) \<Rightarrow> request_respond url (net req) (w1\<lparr>sent := sent w1 @ [req]\<rparr>))"

text \<open>\<^verbatim>\<open>get(url, options)\<close> and \<^verbatim>\<open>post(url, data, options)\<close>\<close>

definition get_options :: "bool \<Rightarrow> request_options" where
  "get_options skip = \<lparr>opt_method = ''GET'', opt_body = None, skipAuth = skip\<rparr>"

definition post_options :: "json option \<Rightarrow> bool \<Rightarrow> request_options" where
  "post_options data skip = \<lparr>opt_method = ''POST'', opt_body = data, skipAuth = skip\<rparr>"

section \<open>src/utils/HttpRequestAgent.js\<close>

text \<open>\<^verbatim>\<open>n.toString(16)\<close> and \<^verbatim>\<open>s.padStart(4, '0')\<close>\<close>

fun toString16 :: "nat \<Rightarrow> string" where
  "toString16 n = (if n < 16 then [hex_char n] else toString16 (n div 16) @ [hex_char (n mod 16)])"

declare toString16.simps [simp del]

definition padStart4 :: "string \<Rightarrow> string" where
  "padStart4 s = replicate (4 - length s) CHR ''0'' @ s"

text \<open>
  \<^verbatim>\<open>_cleanJsonString(jsonString)\<close>: every code unit matched by \<^verbatim>\<open>/[\x00-\x1F]/g\<close> is
  replaced by its \<^verbatim>\<open>\uXXXX\<close> escape.
\<close>

definition escape_control :: "char \<Rightarrow> string" where
  "escape_control c =
     (if charCode c \<le> 0x1F then CHR 0x5C # CHR ''u'' # padStart4 (toString16 (charCode c)) else [c])"

definition cleanJsonString :: "string \<Rightarrow> string" where
  "cleanJsonString jsonString = concat (map escape_control jsonString)"

text \<open>
  \<^verbatim>\<open>_parseResponseBody(response)\<close>. \<^verbatim>\<open>JSON.parse\<close> throws nothing but a SyntaxError, so the
  branch that rethrows another kind of error has no counterpart here.
\<close>

definition invalid_json :: "runtime \<Rightarrow> string \<Rightarrow> world \<Rightarrow> (js_error + json) \<times> world" where
  "invalid_json rt txt w =
     (Inl (Error (''Invalid JSON response: '' @ syntax_message rt txt)),
      w\<lparr>console := console w @ [(''Response text (first 200 chars):'', take 200 txt)]\<rparr>)"

definition parseResponseBody :: "runtime \<Rightarrow> response \<Rightarrow> world \<Rightarrow> (js_error + json) \<times> world" where
  "parseResponseBody rt resp w =
     (if status resp = 204 \<or> content_length resp = Some ''0'' then (Inr (JObject []), w)
      else
        (case (case content_type resp of
                 None \<Rightarrow> None
               | Some contentType \<Rightarrow>
                   if contentType \<noteq> [] \<and> \<not> includes_str contentType ''application/json''
                   then Some contentType else None) of
           Some contentType \<Rightarrow>
             (Inl (Error (''Unexpected content-type: '' @ contentType @ ''. Expected application/json'')), w)
         | None \<Rightarrow>
             (let txt = body_text resp in
              if txt = [] then (Inr (JObject []), w)
              else
                (case JSON_parse txt of
                   Some v \<Rightarrow> (Inr v, w)
                 | None \<Rightarrow>
                     (let cleaned = cleanJsonString txt in
                      if cleaned \<noteq> txt then
                        (case JSON_parse cleaned of
                           Some v \<Rightarrow> (Inr v, w)
                         | None \<Rightarrow> invalid_json rt txt w)
                      else invalid_json rt txt w)))))"

text \<open>\<^verbatim>\<open>_parseResponse(response)\<close>\<close>

definition parseResponse :: "runtime \<Rightarrow> response \<Rightarrow> world \<Rightarrow> (js_error + json) \<times> world" where
  "parseResponse rt resp w =
     (if \<not> ok resp then (Inl (Error (''HTTP '' @ digits_of (status resp))), w)
      else parseResponseBody rt resp w)"

text \<open>
  The \<^verbatim>\<open>catch\<close> block of \<^verbatim>\<open>get\<close> and \<^verbatim>\<open>post\<close>: an AbortError is rethrown, any other error
  is replaced by \<^verbatim>\<open>new Error(error.message || fallback)\<close>.
\<close>

definition rewrap :: "js_error \<Rightarrow> string \<Rightarrow> js_error" where
  "rewrap e fallback =
     (if err_name e = ''AbortError'' then e else Error (or_default (err_message e) fallback))"

text \<open>
  \<^verbatim>\<open>get(endpoint, signal)\<close>. The promise of \<^verbatim>\<open>_parseResponse\<close> is returned without being
  awaited, so its rejection does not pass through the \<^verbatim>\<open>catch\<close> block.
\<close>

definition agent_get_finish :: "runtime \<Rightarrow> string \<Rightarrow> fetch_result \<Rightarrow> world \<Rightarrow> (js_error + json) \<times> world" where
  "agent_get_finish rt endpoint fr w =
     (case request_respond endpoint fr w of
        (Inl e, w1) \<Rightarrow> (Inl (rewrap e ''GET request failed''), w1)
      | (Inr resp, w1) \<Rightarrow> parseResponse rt resp w1)"


text \<open>\<^verbatim>\<open>getErrorMessage(status, defaultMessage = 'Request failed')\<close> of apiConfig.js\<close>

definition getErrorMessage :: "nat \<Rightarrow> json option \<Rightarrow> json" where
  "getErrorMessage st defaultMessage =
     (if st = 400 then JString ''Invalid request data''
      else if st = 401 then JString ''Invalid username or password''
      else if st = 403 then JString ''Access denied''
      else if st = 404 then JString ''Requested resource not found''
      else if st = 409 then JString ''Request conflicts with current state''
      else if st = 429 then JString ''Too many requests - please wait before trying again''
      else if st = 500 then JString ''ESP32 server error - please try again''
      else if st = 503 then JString ''Service temporarily unavailable''
      else (case defaultMessage of None \<Rightarrow> JString ''Request failed'' | Some v \<Rightarrow> v))"

definition NETWORK_ERROR :: string where
  "NETWORK_ERROR = ''Unable to connect to ESP32 device''"

text \<open>The \<^verbatim>\<open>catch\<close> block of \<^verbatim>\<open>login\<close>.\<close>

definition login_catch :: "js_error \<Rightarrow> world \<Rightarrow> (js_error + json) \<times> world" where
  "login_catch e w =
     (let w1 = w\<lparr>storage := snd (clearStoredToken (storage w))\<rparr> in
      if err_name e = ''TypeError'' \<and> includes_str (err_message e) ''fetch''
      then (Inl (Error NETWORK_ERROR), w1)
      else (Inl e, w1))"

text \<open>
  \<^verbatim>\<open>login(credentials)\<close> up to the call of \<^verbatim>\<open>fetch\<close>: the request is prepared by
  \<^verbatim>\<open>post(LOGIN, credentials, {skipAuth: true})\<close>; nothing is checked before.
\<close>

definition login_prepare :: "runtime \<Rightarrow> json option \<Rightarrow> world \<Rightarrow> (js_error + http_request) \<times> world" where
  "login_prepare rt credentials w = request_prepare rt LOGIN (post_options credentials True) w"

text \<open>
  \<^verbatim>\<open>login(credentials)\<close> from the result of \<^verbatim>\<open>fetch\<close> on; \<open>now\<close> is the value of
  \<^verbatim>\<open>Date.now()\<close> read by \<^verbatim>\<open>storeToken\<close>.
\<close>

definition login_finish :: "runtime \<Rightarrow> int \<Rightarrow> fetch_result \<Rightarrow> world \<Rightarrow> (js_error + json) \<times> world" where
  "login_finish rt now fr w =
     (case request_respond LOGIN fr w of
        (Inl e, w1) \<Rightarrow> login_catch e w1
      | (Inr resp, w1) \<Rightarrow>
          if \<not> ok resp then
            (let (parsed, w2) = parseResponseBody rt resp w1;
                 errorData = (case parsed of Inl e \<Rightarrow> JObject [] | Inr d \<Rightarrow> d)
             in case read_prop errorData ''message'' of
                  Inl e \<Rightarrow> login_catch e w2
                | Inr m \<Rightarrow> login_catch (Error (ToString rt (getErrorMessage (status resp) m))) w2)
          else
            (case parseResponseBody rt resp w1 of
               (Inl e, w2) \<Rightarrow> login_catch e w2
             | (Inr data, w2) \<Rightarrow>
                 (case read_prop data ''token'' of
                    Inl e \<Rightarrow> login_catch e w2
                  | Inr tok \<Rightarrow>
                      if \<not> truthy_opt tok
                      then login_catch (Error ''Invalid server response: missing authentication token'') w2
                      else
                        (let (stored, ls) = storeToken now tok (storage w2);
                             w3 = w2\<lparr>storage := ls\<rparr>
                         in if \<not> stored
                            then login_catch (Error ''Failed to store authentication token'') w3
                            else (Inr data, w3)))))"

text \<open>The \<^verbatim>\<open>finally\<close> block of \<^verbatim>\<open>logout\<close>.\<close>

definition clear_local :: "world \<Rightarrow> world" where
  "clear_local w = w\<lparr>storage := snd (clearStoredToken (storage w))\<rparr>"

text \<open>
  \<^verbatim>\<open>logout()\<close> up to the call of \<^verbatim>\<open>fetch\<close>: the request awaited, or \<^term>\<open>None\<close> when the
  operation has completed without one.
\<close>

definition logout_start :: "runtime \<Rightarrow> world \<Rightarrow> http_request option \<times> world" where
  "logout_start rt w =
     (let (tok, ls) = getStoredToken (storage w);
          w1 = w\<lparr>storage := ls\<rparr>
      in if truthy_opt tok then
           (case request_prepare rt LOGOUT (post_options (Some (JObject [])) False) w1 of
              (Inl e, w2) \<Rightarrow> (None, clear_local w2)
            | (Inr req, w2) \<Rightarrow> (Some req, w2\<lparr>sent := sent w2 @ [req]\<rparr>))
         else (None, clear_local w1))"

definition logout_finish :: "fetch_result \<Rightarrow> world \<Rightarrow> world" where
  "logout_finish fr w = clear_local (snd (request_respond LOGOUT fr w))"

text \<open>\<^verbatim>\<open>validateToken()\<close>: its result is \<^verbatim>\<open>{valid, user}\<close>.\<close>

definition validateToken_start :: "runtime \<Rightarrow> world \<Rightarrow> (http_request + bool \<times> json option) \<times> world" where
  "validateToken_start rt w =
     (let (tok, ls) = getStoredToken (storage w);
          w1 = w\<lparr>storage := ls\<rparr>
      in if \<not> truthy_opt tok then (Inr (False, None), w1)
         else
           (case request_prepare rt VALIDATE_TOKEN (get_options False) w1 of
              (Inl e, w2) \<Rightarrow> (Inr (False, None), clear_local w2)
            | (Inr req, w2) \<Rightarrow> (Inl req, w2\<lparr>sent := sent w2 @ [req]\<rparr>)))"

definition validateToken_finish :: "runtime \<Rightarrow> fetch_result \<Rightarrow> world \<Rightarrow> (bool \<times> json option) \<times> world" where
  "validateToken_finish rt fr w =
     (case request_respond VALIDATE_TOKEN fr w of
        (Inl e, w1) \<Rightarrow> ((False, None), clear_local w1)
      | (Inr resp, w1) \<Rightarrow>
          if \<not> ok resp then ((False, None), clear_local w1)
          else
            (case parseResponseBody rt resp w1 of
               (Inl e, w2) \<Rightarrow> ((False, None), clear_local w2)
             | (Inr data, w2) \<Rightarrow>
                 (case read_prop data ''user'' of
                    Inl e \<Rightarrow> ((False, None), clear_local w2)
                  | Inr u \<Rightarrow> ((True, u), w2))))"

section \<open>src/features/Auth/AuthSlice.js: the thunks\<close>

text \<open>
  Each thunk is given as what runs when it is dispatched, up to the point where it awaits
  the network (\<open>_start\<close>: the request awaited, or \<^term>\<open>None\<close> when the thunk has completed
  already), and what runs when the answer arrives (\<open>_finish\<close>). The time \<open>now\<close> is the value
  of \<^verbatim>\<open>Date.now()\<close> read while the middleware checks the token age.
\<close>

text \<open>\<^verbatim>\<open>loginUser(credentials)\<close>\<close>

definition loginUser_settle :: "runtime \<Rightarrow> int \<Rightarrow> (js_error + json) \<times> world \<Rightarrow> world" where
  "loginUser_settle rt now outcome =
     (case outcome of
        (Inr data, w) \<Rightarrow> dispatch rt now (LoginFulfilled data) w
      | (Inl err, w) \<Rightarrow> dispatch rt now (LoginRejected (or_default (err_message err) ''Login failed'')) w)"

definition loginUser_start :: "runtime \<Rightarrow> int \<Rightarrow> json option \<Rightarrow> world \<Rightarrow> http_request option \<times> world" where
  "loginUser_start rt now credentials w =
     (case login_prepare rt credentials (dispatch rt now LoginPending w) of
        (Inl e, w1) \<Rightarrow> (None, loginUser_settle rt now (login_catch e w1))
      | (Inr req, w1) \<Rightarrow> (Some req, w1\<lparr>sent := sent w1 @ [req]\<rparr>))"

definition loginUser_finish :: "runtime \<Rightarrow> int \<Rightarrow> int \<Rightarrow> fetch_result \<Rightarrow> world \<Rightarrow> world" where
  "loginUser_finish rt now_store now fr w = loginUser_settle rt now (login_finish rt now_store fr w)"

text \<open>\<^verbatim>\<open>logoutUser()\<close>: \<^verbatim>\<open>logout()\<close> never throws, so the thunk is always fulfilled.\<close>

definition logoutUser_start :: "runtime \<Rightarrow> int \<Rightarrow> world \<Rightarrow> http_request option \<times> world" where
  "logoutUser_start rt now w =
     (case logout_start rt (dispatch rt now LogoutPending w) of
        (None, w1) \<Rightarrow> (None, dispatch rt now LogoutFulfilled w1)
      | (Some req, w1) \<Rightarrow> (Some req, w1))"

definition logoutUser_finish :: "runtime \<Rightarrow> int \<Rightarrow> fetch_result \<Rightarrow> world \<Rightarrow> world" where
  "logoutUser_finish rt now fr w = dispatch rt now LogoutFulfilled (logout_finish fr w)"

text \<open>\<^verbatim>\<open>initializeAuth()\<close>: \<^verbatim>\<open>validateToken()\<close> never throws either.\<close>

definition initializeAuth_settle :: "runtime \<Rightarrow> int \<Rightarrow> (bool \<times> json option) \<times> world \<Rightarrow> world" where
  "initializeAuth_settle rt now outcome =
     (case outcome of
        ((valid, usr), w) \<Rightarrow>
          if valid then
            (let (tok, ls) = getStoredToken (storage w)
             in dispatch rt now (InitFulfilled tok usr) (w\<lparr>storage := ls\<rparr>))
          else dispatch rt now (InitFulfilled None None) w)"

definition initializeAuth_start :: "runtime \<Rightarrow> int \<Rightarrow> world \<Rightarrow> http_request option \<times> world" where
  "initializeAuth_start rt now w =
     (case validateToken_start rt (dispatch rt now InitPending w) of
        (Inl req, w1) \<Rightarrow> (Some req, w1)
      | (Inr result, w1) \<Rightarrow> (None, initializeAuth_settle rt now (result, w1)))"

definition initializeAuth_finish :: "runtime \<Rightarrow> int \<Rightarrow> fetch_result \<Rightarrow> world \<Rightarrow> world" where
  "initializeAuth_finish rt now fr w = initializeAuth_settle rt now (validateToken_finish rt fr w)"

section \<open>src/features/App/AppSlice.jsx: a protected call\<close>

text \<open>
  \<^verbatim>\<open>loadMode()\<close>: a GET of \<^verbatim>\<open>/api/mode\<close> through the request agent. Its actions belong to
  the mode slice; the authentication reducer ignores them, the middlewares see them.
\<close>

definition loadMode_settle :: "runtime \<Rightarrow> int \<Rightarrow> (js_error + json) \<times> world \<Rightarrow> world" where
  "loadMode_settle rt now outcome =
     (case outcome of
        (Inl e, w) \<Rightarrow> dispatch rt now (OtherAction ''mode/loadMode/rejected'') w
      | (Inr data, w) \<Rightarrow>
          (case read_prop data ''mode'' of
             Inl e \<Rightarrow> dispatch rt now (OtherAction ''mode/loadMode/rejected'') w
           | Inr m \<Rightarrow> dispatch rt now (OtherAction ''mode/loadMode/fulfilled'') w))"

definition loadMode_start :: "runtime \<Rightarrow> int \<Rightarrow> world \<Rightarrow> http_request option \<times> world" where
  "loadMode_start rt now w =
     (case request_prepare rt MODE (get_options False) (dispatch rt now (OtherAction ''mode/loadMode/pending'') w) of
        (Inl e, w1) \<Rightarrow> (None, loadMode_settle rt now (Inl (rewrap e ''GET request failed''), w1))
      | (Inr req, w1) \<Rightarrow> (Some req, w1\<lparr>sent := sent w1 @ [req]\<rparr>))"

definition loadMode_finish :: "runtime \<Rightarrow> int \<Rightarrow> fetch_result \<Rightarrow> world \<Rightarrow> world" where
  "loadMode_finish rt now fr w = loadMode_settle rt now (agent_get_finish rt MODE fr w)"

text \<open>
  Answers to requests in flight at the same time: each is handled by the second half of
  \<^verbatim>\<open>request\<close>, in the order in which they arrive.
\<close>

fun respond_all :: "(string \<times> fetch_result) list \<Rightarrow> world \<Rightarrow> world" where
  "respond_all [] w = w"
| "respond_all ((url, fr) # answers) w = respond_all answers (snd (request_respond url fr w))"

section \<open>The application as a transition system\<close>

text \<open>
  The world the page starts in: whatever the storage holds from earlier sessions, the
  initial state of the slice, nothing transmitted and no listener installed.
\<close>

definition initial_world :: "local_storage \<Rightarrow> world" where
  "initial_world ls =
     \<lparr>storage = ls, sent = [], auth_events = [], listenerSet = False, auth = initialState,
      console = []\<rparr>"

text \<open>
  One event is one run of the single thread: a thunk dispatched by the user interface, or
  the answer to a request arriving. An answer may arrive in any state, so requests in flight
  at the same time are answered in any order.
\<close>

datatype event =
    LoginStart "json option"
  | LoginFinish int fetch_result
  | LogoutStart
  | LogoutFinish fetch_result
  | InitStart
  | InitFinish fetch_result
  | LoadModeStart
  | LoadModeFinish fetch_result
  | AckError

fun step :: "runtime \<Rightarrow> int \<Rightarrow> event \<Rightarrow> world \<Rightarrow> world" where
  "step rt now (LoginStart credentials) w = snd (loginUser_start rt now credentials w)"
| "step rt now (LoginFinish now_store fr) w = loginUser_finish rt now_store now fr w"
| "step rt now LogoutStart w = snd (logoutUser_start rt now w)"
| "step rt now (LogoutFinish fr) w = logoutUser_finish rt now fr w"
| "step rt now InitStart w = snd (initializeAuth_start rt now w)"
| "step rt now (InitFinish fr) w = initializeAuth_finish rt now fr w"
| "step rt now LoadModeStart w = snd (loadMode_start rt now w)"
| "step rt now (LoadModeFinish fr) w = loadMode_finish rt now fr w"
| "step rt now AckError w = dispatch rt now ClearAuthError w"

text \<open>A run: the events in order, each with the time at which it happens.\<close>

fun run :: "runtime \<Rightarrow> (int \<times> event) list \<Rightarrow> world \<Rightarrow> world" where
  "run rt [] w = w"
| "run rt ((now, e) # es) w = run rt es (step rt now e w)"

text \<open>
  The session state agrees with the token store: \<^verbatim>\<open>isAuthenticated\<close> is what
  \<^verbatim>\<open>hasStoredToken()\<close> would answer.
\<close>

definition consistent :: "world \<Rightarrow> bool" where
  "consistent w = (isAuthenticated (auth w) = fst (hasStoredToken (storage w)))"

section \<open>src/services/AuthService.js: the validation of credentials\<close>

text \<open>\<^verbatim>\<open>String.prototype.trim\<close> over the modelled alphabet.\<close>

definition is_space :: "char \<Rightarrow> bool" where
  "is_space c = (charCode c \<in> {0x09, 0x0A, 0x0B, 0x0C, 0x0D, 0x20, 0xA0})"

definition trim :: "string \<Rightarrow> string" where
  "trim s = rev (dropWhile is_space (rev (dropWhile is_space s)))"

text \<open>
  \<^verbatim>\<open>validateCredentials(credentials)\<close>: the error it throws, or \<^term>\<open>None\<close> when it returns.
  \<^verbatim>\<open>AuthService.login\<close> calls it before it builds any request.
\<close>

definition required_string :: "json \<Rightarrow> string \<Rightarrow> string option" where
  "required_string credentials key =
     (case get_prop credentials key of
        Some (JString s) \<Rightarrow> if s = [] then None else Some s
      | _ \<Rightarrow> None)"

definition validateCredentials :: "json option \<Rightarrow> js_error option" where
  "validateCredentials credentials =
     (case credentials of
        None \<Rightarrow> Some (Error ''Invalid credentials: must be an object'')
      | Some c \<Rightarrow>
          if \<not> truthy c \<or> \<not> typeof_object c then Some (Error ''Invalid credentials: must be an object'')
          else
            (case required_string c ''username'' of
               None \<Rightarrow> Some (Error ''Invalid credentials: username is required'')
             | Some username \<Rightarrow>
                 (case required_string c ''password'' of
                    None \<Rightarrow> Some (Error ''Invalid credentials: password is required'')
                  | Some password \<Rightarrow>
                      if length (trim username) = 0 then Some (Error ''Invalid credentials: username cannot be empty'')
                      else if length password = 0 then Some (Error ''Invalid credentials: password cannot be empty'')
                      else if length username > 100 then Some (Error ''Invalid credentials: username too long'')
                      else if length password > 200 then Some (Error ''Invalid credentials: password too long'')
                      else None)))"

section \<open>Example data\<close>

text \<open>
  A runtime to evaluate examples in: the conversions it leaves open answer \<^verbatim>\<open>NaN\<close> and
  \<^verbatim>\<open>[object Object]\<close>, as the language does for a plain object.
\<close>

definition plain_runtime :: runtime where
  "plain_runtime =
     \<lparr>number_of = (\<lambda>v. NaN), string_of = (\<lambda>v. ''[object Object]''),
      syntax_message = (\<lambda>txt. ''Unexpected token'')\<rparr>"


definition unauthorized :: response where
  "unauthorized = \<lparr>status = 401, content_length = None, content_type = None, body_text = []\<rparr>"


text \<open>An accessible storage with room left and no entry.\<close>

definition empty_storage :: local_storage where
  "empty_storage = \<lparr>entry = None, accessible = True, quota_left = True\<rparr>"

text \<open>A stored session, and the answer of the validation endpoint that confirms it.\<close>

definition stored_session :: local_storage where
  "stored_session = \<lparr>entry = Some (stringify_tokenData ''abc'' 1700000000000), accessible = True, quota_left = True\<rparr>"

definition validate_ok :: response where
  "validate_ok =
     \<lparr>status = 200, content_length = None, content_type = Some ''application/json'',
      body_text = ''{\"user\":{\"username\":\"alice\"}}''\<rparr>"

text \<open>The world after the startup validation of that session has been confirmed.\<close>

definition resumed_world :: world where
  "resumed_world =
     \<lparr>storage = stored_session, sent = [], auth_events = [], listenerSet = True,
      auth = \<lparr>token = Some (JString ''abc''), isAuthenticated = True, isLoading = False,
              isInitializing = False, error = None,
              user = Some (JObject [(''username'', JString ''alice'')])\<rparr>,
      console = []\<rparr>"




section \<open>Predicates used in the proofs\<close>

text \<open>The session is invalidated: not authenticated, and no token in the store.\<close>

definition cleared :: "world \<Rightarrow> bool" where
  "cleared w = (isAuthenticated (auth w) = False \<and> fst (hasStoredToken (storage w)) = False)"

text \<open>
  The outcome of \<^verbatim>\<open>login\<close> agrees with the store: a token is stored exactly when the call
  returned.
\<close>

definition settled :: "(js_error + json) \<times> world \<Rightarrow> bool" where
  "settled outcome =
     (case outcome of
        (Inl e, w) \<Rightarrow> fst (hasStoredToken (storage w)) = False
      | (Inr data, w) \<Rightarrow> fst (hasStoredToken (storage w)) = True)"

text \<open>The outcome of \<^verbatim>\<open>validateToken\<close>: when it reports invalid, no token is stored.\<close>

definition validated :: "(bool \<times> json option) \<times> world \<Rightarrow> bool" where
  "validated outcome = (case outcome of ((valid, usr), w) \<Rightarrow> valid \<or> fst (hasStoredToken (storage w)) = False)"

section \<open>Properties of the string primitives\<close>

lemma startsWith_prefix: "startsWith s p = prefix p s"
  by (induction s p rule: startsWith.induct) auto

lemma includes_sublist: "includes_str s p = sublist p s"
proof (induction s)
  case Nil
  then show ?case by auto
next
  case (Cons c cs)
  then show ?case
    by (cases p) (auto simp: startsWith_prefix sublist_Cons_right)
qed

section \<open>The JSON model: a stored token record reads back\<close>

lemma charCode_lt_256: "charCode c < 256"
  unfolding charCode_def by (cases c) simp

lemma char_of_charCode [simp]: "char_of (charCode c) = c"
  by (simp add: charCode_def)

lemma charCode_char_of: "n < 256 \<Longrightarrow> charCode (char_of n) = n"
  by (simp add: charCode_def)

lemma charCode_inj: "charCode c = charCode d \<Longrightarrow> c = d"
  by (simp add: charCode_def)

lemma hex_val_hex_char: "d < 16 \<Longrightarrow> hex_val (hex_char d) = Some d"
  by (auto simp: hex_val_def hex_char_def is_digit_def charCode_char_of)

lemma code_unit_charCode: "code_unit (16 * (charCode c div 16) + charCode c mod 16) = Some c"
  using charCode_lt_256 [of c] by (simp add: code_unit_def)

lemma parse_escape_short:
  "unescape e = Some x \<Longrightarrow> e \<noteq> CHR ''u'' \<Longrightarrow>
   parse_string_body (CHR 0x5C # e # s) = map_option (\<lambda>(t, rest). (x # t, rest)) (parse_string_body s)"
  by simp

lemma parse_escape_u:
  assumes "charCode c < 0x20"
  shows "parse_string_body (CHR 0x5C # CHR ''u'' # CHR ''0'' # CHR ''0'' # hex_char (charCode c div 16) # hex_char (charCode c mod 16) # s)
         = map_option (\<lambda>(t, rest). (c # t, rest)) (parse_string_body s)"
proof -
  have h1: "hex_val (hex_char (charCode c div 16)) = Some (charCode c div 16)"
    using assms by (intro hex_val_hex_char) simp
  have h2: "hex_val (hex_char (charCode c mod 16)) = Some (charCode c mod 16)"
    by (intro hex_val_hex_char) simp
  have h0: "hex_val CHR ''0'' = Some 0"
    by (simp add: hex_val_def is_digit_def charCode_def)
  have cu: "code_unit (4096 * 0 + 256 * 0 + 16 * (charCode c div 16) + charCode c mod 16) = Some c"
    using code_unit_charCode [of c] by simp
  show ?thesis
    by (simp only: parse_string_body.simps list.case h0 h1 h2 cu prod.case option.case) simp
qed

lemma parse_plain_char:
  assumes "c \<noteq> CHR 0x22" "c \<noteq> CHR 0x5C" "\<not> charCode c < 0x20"
  shows "parse_string_body (c # s) = map_option (\<lambda>(t, rest). (c # t, rest)) (parse_string_body s)"
  using assms by simp

lemma parse_quote_char:
  "parse_string_body (quote_char c @ s) = map_option (\<lambda>(t, rest). (c # t, rest)) (parse_string_body s)"
proof -
  consider (q) "c = CHR 0x22" | (b) "c = CHR 0x5C" | (bs) "c = CHR 0x08" | (ff) "c = CHR 0x0C"
    | (nl) "c = CHR 0x0A" | (cr) "c = CHR 0x0D" | (tab) "c = CHR 0x09"
    | (ctl) "c \<noteq> CHR 0x22" "c \<noteq> CHR 0x5C" "c \<noteq> CHR 0x08" "c \<noteq> CHR 0x0C" "c \<noteq> CHR 0x0A"
        "c \<noteq> CHR 0x0D" "c \<noteq> CHR 0x09" "charCode c < 0x20"
    | (plain) "c \<noteq> CHR 0x22" "c \<noteq> CHR 0x5C" "\<not> charCode c < 0x20"
    by blast
  then show ?thesis
  proof cases
    case q
    then show ?thesis by (simp add: quote_char_def unescape_def)
  next
    case b
    then show ?thesis by (simp add: quote_char_def unescape_def)
  next
    case bs
    then show ?thesis by (simp add: quote_char_def unescape_def)
  next
    case ff
    then show ?thesis by (simp add: quote_char_def unescape_def)
  next
    case nl
    then show ?thesis by (simp add: quote_char_def unescape_def)
  next
    case cr
    then show ?thesis by (simp add: quote_char_def unescape_def)
  next
    case tab
    then show ?thesis by (simp add: quote_char_def unescape_def)
  next
    case ctl
    then have "quote_char c = [CHR 0x5C, CHR ''u'', CHR ''0'', CHR ''0'', hex_char (charCode c div 16), hex_char (charCode c mod 16)]"
      by (simp add: quote_char_def)
    then show ?thesis
      using parse_escape_u [OF ctl(8)] by simp
  next
    case plain
    then have "quote_char c = [c]"
      by (auto simp: quote_char_def charCode_def)
    then show ?thesis
      using parse_plain_char [OF plain] by simp
  qed
qed

lemma parse_string_body_quote:
  "parse_string_body (concat (map quote_char s) @ CHR 0x22 # rest) = Some (s, rest)"
  by (induction s) (simp_all add: parse_quote_char)


lemma is_digit_digit_char: "d < 10 \<Longrightarrow> is_digit (digit_char d)"
  by (simp add: is_digit_def digit_char_def charCode_char_of)

lemma digit_val_digit_char: "d < 10 \<Longrightarrow> digit_val (digit_char d) = d"
  by (simp add: digit_val_def digit_char_def charCode_char_of)

lemma digit_char_zero_iff: "d < 10 \<Longrightarrow> digit_char d = CHR ''0'' \<longleftrightarrow> d = 0"
  by (auto simp: digit_char_def char_of_eq_iff take_bit_eq_mod)

lemma digits_of_all_digits: "list_all is_digit (digits_of n)"
proof (induction n rule: digits_of.induct)
  case (1 n)
  then show ?case
    by (subst digits_of.simps) (auto simp: is_digit_digit_char)
qed

lemma digits_of_not_Nil: "digits_of n \<noteq> []"
  by (subst digits_of.simps) simp

lemma digits_val_snoc: "digits_val acc (xs @ [c]) = 10 * digits_val acc xs + digit_val c"
  by (induction xs arbitrary: acc) simp_all

lemma digits_val_digits_of: "digits_val 0 (digits_of n) = n"
proof (induction n rule: digits_of.induct)
  case (1 n)
  show ?case
  proof (cases "n < 10")
    case True
    then show ?thesis
      by (subst digits_of.simps) (simp add: digit_val_digit_char)
  next
    case False
    then have "digits_val 0 (digits_of n) = 10 * digits_val 0 (digits_of (n div 10)) + digit_val (digit_char (n mod 10))"
      by (subst digits_of.simps) (simp add: digits_val_snoc)
    with False 1 show ?thesis
      by (simp add: digit_val_digit_char)
  qed
qed

lemma hd_digits_of_zero: "hd (digits_of n) = CHR ''0'' \<longleftrightarrow> n = 0"
proof (induction n rule: digits_of.induct)
  case (1 n)
  show ?case
  proof (cases "n < 10")
    case True
    then show ?thesis
      by (subst digits_of.simps) (simp add: digit_char_zero_iff)
  next
    case False
    then have "hd (digits_of n) = hd (digits_of (n div 10))"
      by (subst digits_of.simps) (simp add: digits_of_not_Nil)
    with False 1 show ?thesis
      by auto
  qed
qed

lemma takeWhile_digits_of:
  "\<not> is_digit d \<Longrightarrow> takeWhile is_digit (digits_of n @ d # r) = digits_of n"
  using digits_of_all_digits [of n] by (simp add: list_all_iff)

lemma dropWhile_digits_of:
  "\<not> is_digit d \<Longrightarrow> dropWhile is_digit (digits_of n @ d # r) = d # r"
  using digits_of_all_digits [of n] by (simp add: list_all_iff)

lemma parse_unsigned_digits_of:
  assumes "\<not> is_digit d" "d \<noteq> CHR ''.''" "d \<noteq> CHR ''e''" "d \<noteq> CHR ''E''"
  shows "parse_unsigned (digits_of n @ d # r) = Some (of_nat n, d # r)"
proof -
  obtain c cs where cs: "digits_of n = c # cs"
    using digits_of_not_Nil [of n] by (cases "digits_of n") auto
  have dig: "is_digit c"
    using digits_of_all_digits [of n] cs by simp
  have zero: "c = CHR ''0'' \<longleftrightarrow> n = 0"
    using hd_digits_of_zero [of n] cs by simp
  have z0: "digits_of 0 = [CHR ''0'']"
    by (subst digits_of.simps) (simp add: digit_char_def char_of_eq_iff)
  have tw: "takeWhile is_digit (c # cs @ d # r) = c # cs" and dw: "dropWhile is_digit (c # cs @ d # r) = d # r"
    using takeWhile_digits_of [OF assms(1), of n r] dropWhile_digits_of [OF assms(1), of n r] cs by simp_all
  have val: "digits_val 0 (c # cs) = n"
    using digits_val_digits_of [of n] cs by simp
  have fr: "parse_fraction (d # r) = Some (0, d # r)"
    using assms by (simp add: parse_fraction_def)
  have ex: "parse_exponent (d # r) = Some (0, d # r)"
    using assms by (simp add: parse_exponent_def)
  show ?thesis
  proof (cases "n = 0")
    case True
    then have "c = CHR ''0''" "cs = []"
      using cs z0 by simp_all
    then show ?thesis
      using True dig fr ex cs by (simp add: parse_unsigned_def pow10_def)
  next
    case False
    then have "c \<noteq> CHR ''0''"
      using zero by simp
    then show ?thesis
      using dig fr ex cs tw dw val by (simp add: parse_unsigned_def pow10_def del: digits_val.simps)
  qed
qed

lemma digits_of_not_minus: "digits_of n = c # cs \<Longrightarrow> c \<noteq> CHR ''-''"
  using digits_of_all_digits [of n] by (auto simp: is_digit_def charCode_def)

lemma parse_number_stringify_int:
  assumes "\<not> is_digit d" "d \<noteq> CHR ''.''" "d \<noteq> CHR ''e''" "d \<noteq> CHR ''E''"
  shows "parse_number (stringify_int i @ d # r) = Some (of_int i, d # r)"
proof (cases "i < 0")
  case True
  then show ?thesis
    using parse_unsigned_digits_of [OF assms, of "nat (- i)" r]
    by (simp add: parse_number_def stringify_int_def)
next
  case False
  obtain c cs where cs: "digits_of (nat i) = c # cs"
    using digits_of_not_Nil [of "nat i"] by (cases "digits_of (nat i)") auto
  then have "c \<noteq> CHR ''-''"
    by (rule digits_of_not_minus)
  then show ?thesis
    using False cs parse_unsigned_digits_of [OF assms, of "nat i" r]
    by (simp add: parse_number_def stringify_int_def)
qed

lemma skip_ws_not_ws: "\<not> is_ws c \<Longrightarrow> skip_ws (c # s) = c # s"
  by (simp add: skip_ws_def)

lemma skip_ws_Nil [simp]: "skip_ws [] = []"
  by (simp add: skip_ws_def)

lemma is_digit_not_ws: "is_digit c \<Longrightarrow> \<not> is_ws c"
  by (auto simp: is_digit_def is_ws_def charCode_def)

lemma stringify_int_Cons:
  obtains c cs where "stringify_int i = c # cs" "c = CHR ''-'' \<or> is_digit c"
proof (cases "i < 0")
  case True
  then show ?thesis
    using that by (simp add: stringify_int_def)
next
  case False
  obtain c cs where cs: "digits_of (nat i) = c # cs"
    using digits_of_not_Nil [of "nat i"] by (cases "digits_of (nat i)") auto
  then have "is_digit c"
    using digits_of_all_digits [of "nat i"] by simp
  with False cs show ?thesis
    using that by (simp add: stringify_int_def)
qed

lemma parse_json_Value_int:
  "parse_json Value (stringify_int i @ ''}'') = Some (JNumber (of_int i), ''}'')"
proof -
  obtain c cs where cs: "stringify_int i = c # cs" and c: "c = CHR ''-'' \<or> is_digit c"
    by (rule stringify_int_Cons)
  have d: "\<not> is_digit CHR ''}''"
    by (simp add: is_digit_def charCode_def)
  have pn: "parse_number (c # cs @ ''}'') = Some (of_int i, ''}'')"
    using parse_number_stringify_int [of "CHR ''}''" i "[]"] d cs by simp
  have sp: "c \<noteq> CHR ''{''" "c \<noteq> CHR ''[''" "c \<noteq> CHR 0x22"
    using c by (auto simp: is_digit_def charCode_def)
  show ?thesis
    using c sp pn by (simp add: cs)
qed

lemma skip_ws_stringify_int: "skip_ws (stringify_int i @ s) = stringify_int i @ s"
proof -
  obtain c cs where cs: "stringify_int i = c # cs" and c: "c = CHR ''-'' \<or> is_digit c"
    by (rule stringify_int_Cons)
  from c have "\<not> is_ws c"
    by (auto simp: is_ws_def dest: is_digit_not_ws)
  then show ?thesis
    by (simp add: cs skip_ws_not_ws)
qed

lemma JSON_quote_token: "JSON_quote ''token'' = CHR 0x22 # ''token'' @ [CHR 0x22]"
  by (simp add: JSON_quote_def quote_char_def charCode_def)

lemma JSON_quote_timestamp: "JSON_quote ''timestamp'' = CHR 0x22 # ''timestamp'' @ [CHR 0x22]"
  by (simp add: JSON_quote_def quote_char_def charCode_def)

lemma parse_members_timestamp:
  "parse_json (Members acc) (JSON_quote ''timestamp'' @ '':'' @ stringify_int now @ ''}'')
   = Some (JObject (obj_set acc ''timestamp'' (JNumber (of_int now))), [])"
proof -
  have ws: "\<not> is_ws CHR '':''" "\<not> is_ws CHR ''}''" "\<not> is_ws CHR 0x22"
    by (simp_all add: is_ws_def)
  have key: "parse_string_body (''timestamp'' @ CHR 0x22 # '':'' @ stringify_int now @ ''}'')
             = Some (''timestamp'', '':'' @ stringify_int now @ ''}'')"
    by (simp add: charCode_def)
  show ?thesis
    unfolding JSON_quote_timestamp
    using key parse_json_Value_int [of now]
    by (simp add: skip_ws_not_ws ws skip_ws_stringify_int)
qed

lemma parse_json_Members_comma:
  assumes "parse_string_body cs = Some (key, r)"
    and "skip_ws r = CHR '':'' # r1"
    and "length (skip_ws r1) < Suc (length cs)"
    and "parse_json Value (skip_ws r1) = Some (v, r2)"
    and "length r2 < Suc (length cs)"
    and "skip_ws r2 = CHR '','' # r3"
  shows "parse_json (Members acc) (CHR 0x22 # cs) = parse_json (Members (obj_set acc key v)) (skip_ws r3)"
  using assms by simp

lemma JSON_parse_stringify_tokenData:
  "JSON_parse (stringify_tokenData t now)
   = Some (JObject [(''token'', JString t), (''timestamp'', JNumber (of_int now))])"
proof -
  define tail where "tail = JSON_quote ''timestamp'' @ '':'' @ stringify_int now @ ''}''"
  define val where "val = JSON_quote t @ '','' @ tail"
  define cs where "cs = ''token'' @ CHR 0x22 # '':'' @ val"
  have ws: "\<not> is_ws CHR '':''" "\<not> is_ws CHR ''}''" "\<not> is_ws CHR 0x22" "\<not> is_ws CHR ''{''" "\<not> is_ws CHR '',''"
    by (simp_all add: is_ws_def)
  have key: "parse_string_body cs = Some (''token'', '':'' @ val)"
    by (simp add: cs_def charCode_def)
  have sk0: "skip_ws ('':'' @ val) = CHR '':'' # val"
    by (simp add: skip_ws_not_ws ws)
  have sk1: "skip_ws val = val"
    by (simp add: val_def JSON_quote_def skip_ws_not_ws ws)
  have sk2: "skip_ws tail = tail"
    by (simp add: tail_def JSON_quote_timestamp skip_ws_not_ws ws)
  have pv: "parse_json Value val = Some (JString t, '','' @ tail)"
    using parse_string_body_quote [of t "'','' @ tail"] by (simp add: val_def JSON_quote_def)
  have l1: "length (skip_ws val) < Suc (length cs)"
    by (simp add: sk1 cs_def)
  have l2: "length ('','' @ tail) < Suc (length cs)"
    by (simp add: cs_def val_def)
  have sk3: "skip_ws ('','' @ tail) = CHR '','' # tail"
    by (simp add: skip_ws_not_ws ws)
  have mem2: "parse_json (Members [(''token'', JString t)]) tail
              = Some (JObject [(''token'', JString t), (''timestamp'', JNumber (of_int now))], [])"
    using parse_members_timestamp [of "[(''token'', JString t)]" now] by (simp add: tail_def)
  have mem1: "parse_json (Members []) (CHR 0x22 # cs)
              = Some (JObject [(''token'', JString t), (''timestamp'', JNumber (of_int now))], [])"
    using parse_json_Members_comma [OF key sk0 l1, of "JString t" "'','' @ tail" tail "[]"] pv l2 sk3 sk1 sk2 mem2
    by simp
  have shape: "stringify_tokenData t now = CHR ''{'' # CHR 0x22 # cs"
    by (simp add: stringify_tokenData_def JSON_quote_token cs_def val_def tail_def)
  show ?thesis
    unfolding JSON_parse_def shape
    using mem1 by (simp add: skip_ws_not_ws ws)
qed

section \<open>The JSON model: the parser consumes its input\<close>

lemma parse_string_body_shorter:
  "parse_string_body cs = Some (t, r) \<Longrightarrow> length r < length cs"
proof (induction cs arbitrary: t r rule: parse_string_body.induct)
  case 1
  then show ?case by simp
next
  case (2 c cs)
  then show ?case
    by (auto split: if_splits list.splits option.splits prod.splits) fastforce+
qed

lemma parse_fraction_shorter: "parse_fraction s = Some (f, r) \<Longrightarrow> length r \<le> length s"
proof (cases s)
  case Nil
  then show "parse_fraction s = Some (f, r) \<Longrightarrow> length r \<le> length s"
    by (simp add: parse_fraction_def)
next
  case (Cons c cs)
  assume p: "parse_fraction s = Some (f, r)"
  show "length r \<le> length s"
  proof (cases "c = CHR ''.''")
    case False
    with p Cons show ?thesis
      by (simp add: parse_fraction_def)
  next
    case True
    with p Cons have "r = dropWhile is_digit cs"
      by (simp add: parse_fraction_def Let_def split: if_splits)
    then show ?thesis
      using length_dropWhile_le [of is_digit cs] Cons by simp
  qed
qed

lemma exponent_sign_shorter:
  "length (snd (case cs of [] \<Rightarrow> (False, cs)
                | g # r' \<Rightarrow> if g = CHR ''-'' then (True, r') else if g = CHR ''+'' then (False, r') else (False, cs)))
   \<le> length cs"
  by (cases cs) simp_all

lemma parse_exponent_shorter: "parse_exponent s = Some (e, r) \<Longrightarrow> length r \<le> length s"
proof (cases s)
  case Nil
  then show "parse_exponent s = Some (e, r) \<Longrightarrow> length r \<le> length s"
    by (simp add: parse_exponent_def)
next
  case (Cons c cs)
  assume p: "parse_exponent s = Some (e, r)"
  show "length r \<le> length s"
  proof (cases "c = CHR ''e'' \<or> c = CHR ''E''")
    case False
    with p Cons show ?thesis
      by (simp add: parse_exponent_def)
  next
    case True
    define sr where "sr = (case cs of [] \<Rightarrow> (False, cs)
                | g # r' \<Rightarrow> if g = CHR ''-'' then (True, r') else if g = CHR ''+'' then (False, r') else (False, cs))"
    have "parse_exponent s =
            (if takeWhile is_digit (snd sr) = [] then None
             else Some ((if fst sr then - int (digits_val 0 (takeWhile is_digit (snd sr)))
                         else int (digits_val 0 (takeWhile is_digit (snd sr)))),
                        dropWhile is_digit (snd sr)))"
      using True Cons unfolding parse_exponent_def sr_def
      by (simp add: Let_def case_prod_beta)
    with p have "r = dropWhile is_digit (snd sr)"
      by (simp split: if_splits)
    moreover have "length (snd sr) \<le> length cs"
      unfolding sr_def by (rule exponent_sign_shorter)
    ultimately show ?thesis
      using length_dropWhile_le [of is_digit "snd sr"] Cons by simp
  qed
qed

lemma parse_unsigned_shorter: "parse_unsigned s = Some (q, r) \<Longrightarrow> length r < length s"
proof (cases s)
  case Nil
  then show "parse_unsigned s = Some (q, r) \<Longrightarrow> length r < length s"
    by (simp add: parse_unsigned_def)
next
  case (Cons c cs)
  assume p: "parse_unsigned s = Some (q, r)"
  have d: "is_digit c"
  proof (rule ccontr)
    assume "\<not> is_digit c"
    with p Cons show False
      by (simp add: parse_unsigned_def)
  qed
  define ir where "ir = (if c = CHR ''0'' then (0, cs) else (digits_val 0 (takeWhile is_digit s), dropWhile is_digit s))"
  have l1: "length (snd ir) < length s"
    using length_dropWhile_le [of is_digit cs] d Cons by (simp add: ir_def)
  have "parse_unsigned s =
          (case parse_fraction (snd ir) of
             None \<Rightarrow> None
           | Some (fp, r2) \<Rightarrow>
               (case parse_exponent r2 of
                  None \<Rightarrow> None
                | Some (e, r3) \<Rightarrow> Some ((of_nat (fst ir) + fp) * pow10 e, r3)))"
    using d Cons unfolding parse_unsigned_def ir_def
    by (simp add: Let_def case_prod_beta)
  with p obtain fp r2 e where "parse_fraction (snd ir) = Some (fp, r2)" "parse_exponent r2 = Some (e, r)"
    by (auto split: option.splits)
  then have "length r2 \<le> length (snd ir)" "length r \<le> length r2"
    by (auto dest: parse_fraction_shorter parse_exponent_shorter)
  with l1 show "length r < length s"
    by simp
qed

lemma parse_number_shorter: "parse_number s = Some (q, r) \<Longrightarrow> length r < length s"
proof (cases s)
  case Nil
  then show "parse_number s = Some (q, r) \<Longrightarrow> length r < length s"
    by (simp add: parse_number_def)
next
  case (Cons c cs)
  assume p: "parse_number s = Some (q, r)"
  show "length r < length s"
  proof (cases "c = CHR ''-''")
    case True
    with p Cons obtain q' where "parse_unsigned cs = Some (q', r)"
      by (auto simp: parse_number_def)
    then have "length r < length cs"
      by (rule parse_unsigned_shorter)
    with Cons show ?thesis
      by simp
  next
    case False
    with p Cons have "parse_unsigned s = Some (q, r)"
      by (simp add: parse_number_def)
    then show ?thesis
      by (rule parse_unsigned_shorter)
  qed
qed

lemma less_skip_ws: "n < length (skip_ws s) \<Longrightarrow> n < length s"
  by (simp add: length_skip_ws_eq)

lemma parse_json_shorter: "parse_json k s = Some (v, r) \<Longrightarrow> length r < length s"
proof (induction k s arbitrary: v r rule: parse_json.induct)
  case 1
  then show ?case by simp
next
  case (2 c cs)
  note p = "2.prems"
  consider (obj) "c = CHR ''{''" | (arr) "c \<noteq> CHR ''{''" "c = CHR ''[''"
    | (str) "c \<noteq> CHR ''{''" "c \<noteq> CHR ''[''" "c = CHR 0x22"
    | (oth) "c \<noteq> CHR ''{''" "c \<noteq> CHR ''[''" "c \<noteq> CHR 0x22"
    by blast
  then show ?case
  proof cases
    case obj
    show ?thesis
    proof (cases "skip_ws cs")
      case Nil
      with p obj show ?thesis by simp
    next
      case (Cons d r0)
      show ?thesis
      proof (cases "d = CHR ''}''")
        case True
        with p obj Cons have "r = r0" by simp
        then show ?thesis
          using skip_ws_Cons_length [OF Cons] by simp
      next
        case False
        with p obj Cons have "parse_json (Members []) (skip_ws cs) = Some (v, r)" by simp
        then have "length r < length (skip_ws cs)"
          by (rule "2.IH"(1) [OF obj Cons False])
        then show ?thesis
          by (simp add: less_skip_ws less_SucI)
      qed
    qed
  next
    case arr
    show ?thesis
    proof (cases "skip_ws cs")
      case Nil
      with p arr show ?thesis by simp
    next
      case (Cons d r0)
      show ?thesis
      proof (cases "d = CHR '']''")
        case True
        with p arr Cons have "r = r0" by simp
        then show ?thesis
          using skip_ws_Cons_length [OF Cons] by simp
      next
        case False
        with p arr Cons have "parse_json (Elements []) (skip_ws cs) = Some (v, r)" by simp
        then have "length r < length (skip_ws cs)"
          by (rule "2.IH"(2) [OF arr Cons False])
        then show ?thesis
          by (simp add: less_skip_ws less_SucI)
      qed
    qed
  next
    case str
    with p obtain t where "parse_string_body cs = Some (t, r)"
      by auto
    then have "length r < length cs"
      by (rule parse_string_body_shorter)
    then show ?thesis by simp
  next
    case oth
    show ?thesis
    proof (cases "c = CHR ''-'' \<or> is_digit c")
      case True
      with p oth obtain q where "parse_number (c # cs) = Some (q, r)"
        by auto
      then show ?thesis
        by (rule parse_number_shorter)
    next
      case False
      with p oth have "r = drop 4 (c # cs) \<or> r = drop 5 (c # cs)"
        by (auto split: if_splits)
      then show ?thesis
        by auto
    qed
  qed
next
  case (3 acc s)
  note p = "3.prems"
  from p obtain v1 r1 where v1: "parse_json Value s = Some (v1, r1)"
    by (cases "parse_json Value s") auto
  with p have l1: "length r1 < length s"
    by (auto split: if_splits)
  show ?case
  proof (cases "skip_ws r1")
    case Nil
    with p v1 l1 show ?thesis by simp
  next
    case (Cons d r')
    have l2: "length r' < length r1"
      by (rule skip_ws_Cons_length [OF Cons])
    show ?thesis
    proof (cases "d = CHR '',''")
      case True
      with p v1 l1 Cons have "parse_json (Elements (acc @ [v1])) (skip_ws r') = Some (v, r)"
        by simp
      then have "length r < length (skip_ws r')"
        by (rule "3.IH"(2) [OF v1 refl l1 Cons True])
      then have "length r < length r'"
        by (rule less_skip_ws)
      then show ?thesis
        using l1 l2 by simp
    next
      case False
      with p v1 l1 Cons have "r = r'"
        by (auto split: if_splits)
      then show ?thesis
        using l1 l2 by simp
    qed
  qed
next
  case (4 acc s)
  note p = "4.prems"
  from p obtain q cs where s: "s = q # cs"
    by (cases s) auto
  with p have q: "\<not> q \<noteq> CHR 0x22"
    by (auto split: if_splits)
  from p s q obtain key r0 where key: "parse_string_body cs = Some (key, r0)"
    by (cases "parse_string_body cs") auto
  from p s q key obtain d r1 where sk: "skip_ws r0 = d # r1"
    by (cases "skip_ws r0") auto
  from p s q key sk have g: "d = CHR '':'' \<and> length (skip_ws r1) < length s"
    by (auto split: if_splits)
  from p s q key sk g obtain v1 r2 where v1: "parse_json Value (skip_ws r1) = Some (v1, r2)"
    by (cases "parse_json Value (skip_ws r1)") auto
  from p s q key sk g v1 have l2: "length r2 < length s"
    by (auto split: if_splits)
  show ?case
  proof (cases "skip_ws r2")
    case Nil
    with p s q key sk g v1 l2 show ?thesis by simp
  next
    case (Cons e r3)
    have l3: "length r3 < length r2"
      by (rule skip_ws_Cons_length [OF Cons])
    show ?thesis
    proof (cases "e = CHR '',''")
      case True
      with p s q key sk g v1 l2 Cons
      have "parse_json (Members (obj_set acc key v1)) (skip_ws r3) = Some (v, r)"
        by simp
      then have "length r < length (skip_ws r3)"
        by (rule "4.IH"(2) [OF s q key refl sk g v1 refl l2 Cons True])
      then have "length r < length r3"
        by (rule less_skip_ws)
      then show ?thesis
        using l2 l3 by simp
    next
      case False
      with p s q key sk g v1 l2 Cons have "r = r3"
        by (auto split: if_splits)
      then show ?thesis
        using l2 l3 by simp
    qed
  qed
qed

text \<open>So the length tests in the definition of the parser never fail.\<close>

lemma parse_json_Elements_unguarded:
  "parse_json (Elements acc) s =
     (case parse_json Value s of
        None \<Rightarrow> None
      | Some (v, r) \<Rightarrow>
          (case skip_ws r of
             [] \<Rightarrow> None
           | d # r' \<Rightarrow>
               if d = CHR '','' then parse_json (Elements (acc @ [v])) (skip_ws r')
               else if d = CHR '']'' then Some (JArray (acc @ [v]), r')
               else None))"
  by (auto split: option.splits dest: parse_json_shorter)

lemma parse_json_Members_unguarded:
  "parse_json (Members acc) (CHR 0x22 # cs) =
     (case parse_string_body cs of
        None \<Rightarrow> None
      | Some (key, r) \<Rightarrow>
          (case skip_ws r of
             [] \<Rightarrow> None
           | d # r1 \<Rightarrow>
               if d = CHR '':'' then
                 (case parse_json Value (skip_ws r1) of
                    None \<Rightarrow> None
                  | Some (v, r2) \<Rightarrow>
                      (case skip_ws r2 of
                         [] \<Rightarrow> None
                       | e # r3 \<Rightarrow>
                           if e = CHR '','' then parse_json (Members (obj_set acc key v)) (skip_ws r3)
                           else if e = CHR ''}'' then Some (JObject (obj_set acc key v), r3)
                           else None))
               else None))"
proof (cases "parse_string_body cs")
  case None
  then show ?thesis by simp
next
  case (Some a)
  obtain key r where a: "a = (key, r)"
    by (cases a)
  have l0: "length r < length cs"
    using Some a by (intro parse_string_body_shorter) simp
  show ?thesis
  proof (cases "skip_ws r")
    case Nil
    with Some a show ?thesis by simp
  next
    case (Cons d r1)
    have l1: "length (skip_ws r1) < Suc (length cs)"
      using skip_ws_Cons_length [OF Cons] length_skip_ws [of r1] l0
      by (simp add: length_skip_ws_eq)
    show ?thesis
    proof (cases "parse_json Value (skip_ws r1)")
      case None
      with Some a Cons show ?thesis by simp
    next
      case v: (Some b)
      obtain v1 r2 where b: "b = (v1, r2)"
        by (cases b)
      have "length r2 < length (skip_ws r1)"
        using v b by (intro parse_json_shorter) simp
      with l1 have "length r2 < Suc (length cs)"
        by simp
      with Some a Cons v b l1 show ?thesis
        by simp
    qed
  qed
qed

text \<open>Facts that evaluate the parser on a concrete text.\<close>

lemmas json_eval = JSON_parse_def skip_ws_def is_ws_def is_digit_def charCode_def digit_val_def
  parse_number_def parse_unsigned_def parse_fraction_def parse_exponent_def pow10_def hex_val_def
  unescape_def code_unit_def Let_def char_of_eq_iff

section \<open>Endpoint classification\<close>

text \<open>
  Claim C5 says that \<open>isPublic\<close> holds exactly of the login endpoint and the declared public
  endpoints and that \<open>requiresAuth\<close> is its negation. The code tests for a substring and
  limits \<open>requiresAuth\<close> to paths under \<^verbatim>\<open>/api/\<close>: the path \<^verbatim>\<open>/api/statusboard\<close> is none of
  the declared endpoints and is public, and \<^verbatim>\<open>/index.html\<close> is not public and does not
  require a credential either.
\<close>

theorem isPublicEndpoint_substring_counterexample:
  "isPublicEndpoint ''/api/statusboard'' = True \<and> (''/api/statusboard'' \<in> set PUBLIC_ENDPOINTS) = False \<and>
   requiresAuth ''/index.html'' = False \<and> isPublicEndpoint ''/index.html'' = False"
  by (simp add: isPublicEndpoint_def requiresAuth_def PUBLIC_ENDPOINTS_def)

text \<open>
  Claim C5 as amended: \<^verbatim>\<open>isPublicEndpoint\<close> holds exactly of the paths that contain
  \<^verbatim>\<open>/api/login\<close>, \<^verbatim>\<open>/api/health\<close> or \<^verbatim>\<open>/api/status\<close>; \<^verbatim>\<open>requiresAuth\<close> holds exactly of
  the paths that start with \<^verbatim>\<open>/api/\<close> and are not public; each declared public endpoint is
  public and none of them requires a credential.
\<close>

theorem isPublicEndpoint_requiresAuth_characterised:
  "isPublicEndpoint p = (sublist ''/api/login'' p \<or> sublist ''/api/health'' p \<or> sublist ''/api/status'' p) \<and>
   requiresAuth p = (prefix ''/api/'' p \<and> \<not> isPublicEndpoint p) \<and>
   list_all isPublicEndpoint PUBLIC_ENDPOINTS \<and> \<not> list_ex requiresAuth PUBLIC_ENDPOINTS"
proof -
  have pub: "isPublicEndpoint p = (sublist ''/api/login'' p \<or> sublist ''/api/health'' p \<or> sublist ''/api/status'' p)"
    by (simp add: isPublicEndpoint_def PUBLIC_ENDPOINTS_def includes_sublist)
  have req: "requiresAuth p = (prefix ''/api/'' p \<and> \<not> isPublicEndpoint p)"
    by (simp add: requiresAuth_def startsWith_prefix)
  have decl: "list_all isPublicEndpoint PUBLIC_ENDPOINTS"
    by (simp add: isPublicEndpoint_def PUBLIC_ENDPOINTS_def)
  then have "\<not> list_ex requiresAuth PUBLIC_ENDPOINTS"
    by (auto simp: requiresAuth_def list_all_iff list_ex_iff)
  with pub req decl show ?thesis
    by blast
qed

section \<open>The token store\<close>

text \<open>
  Claim C6 says that a stored payload that does not parse into a record with a token makes
  \<^verbatim>\<open>getStoredToken\<close> return absence and delete the entry. When the payload is the empty
  string, the code returns absence at the test for a missing entry and leaves the entry in
  place.
\<close>

theorem getStoredToken_empty_payload:
  "getStoredToken \<lparr>entry = Some [], accessible = True, quota_left = True\<rparr>
   = (None, \<lparr>entry = Some [], accessible = True, quota_left = True\<rparr>)"
  by (simp add: getStoredToken_def getItem_def)

text \<open>Read off at that storage: absence is returned, and the entry is still there.\<close>

theorem getStoredToken_empty_payload_witness:
  "fst (getStoredToken \<lparr>entry = Some [], accessible = True, quota_left = True\<rparr>) = None \<and>
   entry (snd (getStoredToken \<lparr>entry = Some [], accessible = True, quota_left = True\<rparr>)) = Some []"
  using getStoredToken_empty_payload by simp

text \<open>
  For every other payload the entry is deleted: a non-empty text that does not parse, or
  that parses to something else than an object with a \<^verbatim>\<open>token\<close> field.
\<close>

lemma getStoredToken_self_heals:
  assumes "accessible ls" and "entry ls = Some txt" and "txt \<noteq> []"
    and "JSON_parse txt = None \<or>
         (\<exists>v. JSON_parse txt = Some v \<and> ((\<forall>kvs. v \<noteq> JObject kvs) \<or> get_prop v ''token'' = None))"
  shows "getStoredToken ls = (None, ls\<lparr>entry := None\<rparr>)"
proof -
  have clr: "snd (clearStoredToken ls) = ls\<lparr>entry := None\<rparr>"
    using assms(1) by (simp add: clearStoredToken_def removeItem_def)
  from assms(4) show ?thesis
  proof
    assume "JSON_parse txt = None"
    then show ?thesis
      using assms(1-3) clr by (simp add: getStoredToken_def getItem_def)
  next
    assume "\<exists>v. JSON_parse txt = Some v \<and> ((\<forall>kvs. v \<noteq> JObject kvs) \<or> get_prop v ''token'' = None)"
    then obtain v where v: "JSON_parse txt = Some v"
      and shape: "(\<forall>kvs. v \<noteq> JObject kvs) \<or> get_prop v ''token'' = None"
      by blast
    from shape have "get_prop v ''token'' = None"
      by (cases v) auto
    then show ?thesis
      using assms(1-3) v clr by (simp add: getStoredToken_def getItem_def truthy_opt_def)
  qed
qed

text \<open>
  Claim C8 says that a stored record is expired exactly when its age exceeds \<open>maxAge\<close>. A
  record whose timestamp is 0 is 90000000 ms old at time 90000000, more than the 24 hours
  86400000, and \<^verbatim>\<open>isTokenExpired\<close> answers false: \<^verbatim>\<open>getTokenAge\<close> takes the timestamp 0
  for a missing one.
\<close>

theorem isTokenExpired_epoch_timestamp:
  "fst (isTokenExpired rt 90000000 (Num 86400000)
         \<lparr>entry = Some ''{\"token\":\"abc\",\"timestamp\":0}'', accessible = True, quota_left = True\<rparr>) = False \<and>
   number_gt (number_minus (Num 90000000) (Num 0)) (Num 86400000) = True"
  by (simp add: isTokenExpired_def getTokenAge_def getTokenData_def getItem_def truthy_opt_def json_eval)

text \<open>
  For a record that \<^verbatim>\<open>storeToken\<close> wrote at a time other than 0, \<^verbatim>\<open>isTokenExpired\<close> answers
  true exactly when the age exceeds \<open>maxAge\<close>; at an age equal to \<open>maxAge\<close> it answers false.
\<close>

lemma getTokenData_stored_record:
  assumes "accessible ls" and "t \<noteq> []" and "entry ls = Some (stringify_tokenData t t0)"
  shows "getTokenData ls = (Some (JObject [(''token'', JString t), (''timestamp'', JNumber (of_int t0))]), ls)"
proof -
  have "stringify_tokenData t t0 \<noteq> []"
    by (simp add: stringify_tokenData_def)
  then show ?thesis
    using assms by (simp add: getTokenData_def getItem_def JSON_parse_stringify_tokenData truthy_opt_def)
qed

lemma isTokenExpired_stored_record:
  assumes "accessible ls" and "t \<noteq> []" and "entry ls = Some (stringify_tokenData t t0)" and "t0 \<noteq> 0"
  shows "isTokenExpired rt now (Num m) ls = (of_int (now - t0) > m, ls)"
  using assms(4)
  by (simp add: isTokenExpired_def getTokenAge_def getTokenData_stored_record [OF assms(1-3)] ToNumber_def)

text \<open>
  Claim C9: \<^verbatim>\<open>storeToken\<close> returns false and leaves the storage as it is when its argument
  is \<^verbatim>\<open>undefined\<close>, \<^verbatim>\<open>null\<close>, the empty string or not a string; and whenever the storage
  changes, the argument is a non-empty string, \<^verbatim>\<open>setItem\<close> succeeded, the result is true and
  the entry is the record of that token and the current time.
\<close>

theorem storeToken_rejects_or_writes_record:
  "(arg = None \<or> arg = Some JNull \<or> arg = Some (JString []) \<or> (\<exists>v. arg = Some v \<and> \<not> typeof_string v)
      \<longrightarrow> storeToken now arg ls = (False, ls)) \<and>
   (snd (storeToken now arg ls) \<noteq> ls \<longrightarrow>
      (\<exists>t. arg = Some (JString t) \<and> t \<noteq> [] \<and>
           setItem (stringify_tokenData t now) ls = Inr (snd (storeToken now arg ls)) \<and>
           fst (storeToken now arg ls) = True \<and>
           entry (snd (storeToken now arg ls)) = Some (stringify_tokenData t now)))"
proof (intro conjI impI)
  assume "arg = None \<or> arg = Some JNull \<or> arg = Some (JString []) \<or> (\<exists>v. arg = Some v \<and> \<not> typeof_string v)"
  then show "storeToken now arg ls = (False, ls)"
    by (auto simp: storeToken_def split: option.splits json.splits)
next
  assume changed: "snd (storeToken now arg ls) \<noteq> ls"
  then obtain t where t: "arg = Some (JString t)" "t \<noteq> []"
    by (auto simp: storeToken_def split: option.splits json.splits if_splits)
  with changed obtain ls' where w: "setItem (stringify_tokenData t now) ls = Inr ls'"
    by (cases "setItem (stringify_tokenData t now) ls") (auto simp: storeToken_def)
  then have "entry ls' = Some (stringify_tokenData t now)"
    by (auto simp: setItem_def split: if_splits)
  with t w show "\<exists>t. arg = Some (JString t) \<and> t \<noteq> [] \<and>
           setItem (stringify_tokenData t now) ls = Inr (snd (storeToken now arg ls)) \<and>
           fst (storeToken now arg ls) = True \<and>
           entry (snd (storeToken now arg ls)) = Some (stringify_tokenData t now)"
    by (simp add: storeToken_def)
qed

text \<open>
  Witness for C9: a number is refused, and the token \<^verbatim>\<open>abc\<close> is written to an accessible
  storage with room left.
\<close>

theorem storeToken_rejects_or_writes_record_witness:
  "storeToken 1700000000000 (Some (JNumber 42)) empty_storage = (False, empty_storage) \<and>
   snd (storeToken 1700000000000 (Some (JString ''abc'')) empty_storage) \<noteq> empty_storage \<and>
   fst (storeToken 1700000000000 (Some (JString ''abc'')) empty_storage) = True \<and>
   entry (snd (storeToken 1700000000000 (Some (JString ''abc'')) empty_storage))
     = Some (stringify_tokenData ''abc'' 1700000000000)"
proof -
  have changed: "snd (storeToken 1700000000000 (Some (JString ''abc'')) empty_storage) \<noteq> empty_storage"
    by (simp add: storeToken_def setItem_def empty_storage_def)
  show ?thesis
    using storeToken_rejects_or_writes_record [of "Some (JNumber 42)" 1700000000000 empty_storage]
      storeToken_rejects_or_writes_record [of "Some (JString ''abc'')" 1700000000000 empty_storage]
      changed
    by auto
qed

text \<open>
  Claim C10: for every \<open>maxAge\<close>, \<^verbatim>\<open>isTokenExpired\<close> answers false when no record is stored
  and when the stored record has no \<^verbatim>\<open>timestamp\<close> field.
\<close>

theorem isTokenExpired_without_record_or_timestamp:
  assumes "entry ls = None \<or>
           (\<exists>txt kvs. entry ls = Some txt \<and> JSON_parse txt = Some (JObject kvs) \<and> map_of kvs ''timestamp'' = None)"
  shows "fst (isTokenExpired rt now maxAge ls) = False"
  using assms
  by (auto simp: isTokenExpired_def getTokenAge_def getTokenData_def getItem_def Let_def
      split: prod.splits option.splits if_splits sum.splits)

text \<open>Witness for C10: the empty storage, and a stored record without a timestamp.\<close>

theorem isTokenExpired_without_record_or_timestamp_witness:
  "fst (isTokenExpired plain_runtime 1700000000000 (Num 0) empty_storage) = False \<and>
   JSON_parse ''{\"token\":\"abc\"}'' = Some (JObject [(''token'', JString ''abc'')]) \<and>
   fst (isTokenExpired plain_runtime 1700000000000 (Num 0)
         \<lparr>entry = Some ''{\"token\":\"abc\"}'', accessible = True, quota_left = True\<rparr>) = False"
proof -
  have p: "JSON_parse ''{\"token\":\"abc\"}'' = Some (JObject [(''token'', JString ''abc'')])"
    by (simp add: json_eval)
  have "fst (isTokenExpired plain_runtime 1700000000000 (Num 0)
         \<lparr>entry = Some ''{\"token\":\"abc\"}'', accessible = True, quota_left = True\<rparr>) = False"
    by (rule isTokenExpired_without_record_or_timestamp) (simp add: p)
  moreover have "fst (isTokenExpired plain_runtime 1700000000000 (Num 0) empty_storage) = False"
    by (rule isTokenExpired_without_record_or_timestamp) (simp add: empty_storage_def)
  ultimately show ?thesis
    using p by simp
qed

section \<open>The token store: reading after writing, reading twice\<close>

lemma getStoredToken_no_entry:
  "entry ls = None \<or> \<not> accessible ls \<Longrightarrow> fst (getStoredToken ls) = None"
  by (auto simp: getStoredToken_def getItem_def split: option.splits)

lemma clearStoredToken_cases:
  "snd (clearStoredToken ls) = (if accessible ls then ls\<lparr>entry := None\<rparr> else ls)"
  by (simp add: clearStoredToken_def removeItem_def)

lemma fst_hasStoredToken: "fst (hasStoredToken ls) = truthy_opt (fst (getStoredToken ls))"
  by (simp add: hasStoredToken_def split: prod.splits)

lemma hasStoredToken_after_clear [simp]: "fst (hasStoredToken (snd (clearStoredToken ls))) = False"
proof -
  have "fst (getStoredToken (snd (clearStoredToken ls))) = None"
    by (rule getStoredToken_no_entry) (simp add: clearStoredToken_cases)
  then show ?thesis
    by (simp add: fst_hasStoredToken truthy_opt_def)
qed

lemma clearStoredToken_idem [simp]:
  "snd (clearStoredToken (snd (clearStoredToken ls))) = snd (clearStoredToken ls)"
  by (simp add: clearStoredToken_cases)

lemma dispatch_clearAuthToken_simps [simp]:
  "isAuthenticated (auth (dispatch_clearAuthToken w)) = False"
  "storage (dispatch_clearAuthToken w) = snd (clearStoredToken (storage w))"
  "listenerSet (dispatch_clearAuthToken w) = True"
  "sent (dispatch_clearAuthToken w) = sent w"
  "auth_events (dispatch_clearAuthToken w) = auth_events w"
  "console (dispatch_clearAuthToken w) = console w"
  by (simp_all add: dispatch_clearAuthToken_def)

lemma getStoredToken_shape:
  "getStoredToken ls = (None, ls) \<or> getStoredToken ls = (None, snd (clearStoredToken ls)) \<or>
   (\<exists>t. truthy t \<and> getStoredToken ls = (Some t, ls))"
  by (auto simp: getStoredToken_def truthy_opt_def split: sum.splits option.splits)

lemma getTokenData_shape:
  "getTokenData ls = (None, ls) \<or> getTokenData ls = (None, snd (clearStoredToken ls)) \<or>
   (\<exists>t. getTokenData ls = (Some t, ls))"
  by (auto simp: getTokenData_def split: sum.splits option.splits)

lemma getStoredToken_None_iff_getTokenData:
  "fst (getStoredToken ls) = None \<longleftrightarrow> fst (getTokenData ls) = None"
  by (auto simp: getStoredToken_def getTokenData_def truthy_opt_def split: sum.splits option.splits)

lemma snd_getStoredToken_getTokenData: "snd (getStoredToken ls) = snd (getTokenData ls)"
  by (auto simp: getStoredToken_def getTokenData_def split: sum.splits option.splits)

lemma getStoredToken_truthy: "fst (getStoredToken ls) = Some t \<Longrightarrow> truthy t"
  using getStoredToken_shape [of ls] by auto

lemma fst_hasStoredToken_iff: "fst (hasStoredToken ls) \<longleftrightarrow> fst (getStoredToken ls) \<noteq> None"
  using getStoredToken_shape [of ls] by (auto simp: fst_hasStoredToken truthy_opt_def)

lemma getStoredToken_after_clear [simp]: "fst (getStoredToken (snd (clearStoredToken ls))) = None"
  by (rule getStoredToken_no_entry) (simp add: clearStoredToken_cases)

lemma getStoredToken_idem [simp]:
  "fst (getStoredToken (snd (getStoredToken ls))) = fst (getStoredToken ls)"
  using getStoredToken_shape [of ls] by auto

lemma hasStoredToken_after_getStoredToken [simp]:
  "fst (hasStoredToken (snd (getStoredToken ls))) = fst (hasStoredToken ls)"
  by (simp add: fst_hasStoredToken)

lemma hasStoredToken_after_getTokenData [simp]:
  "fst (hasStoredToken (snd (getTokenData ls))) = fst (hasStoredToken ls)"
  using hasStoredToken_after_getStoredToken [of ls] by (simp add: snd_getStoredToken_getTokenData)

lemma snd_isTokenExpired: "snd (isTokenExpired rt now maxAge ls) = snd (getTokenData ls)"
  by (simp add: isTokenExpired_def getTokenAge_def split: prod.splits option.splits)

lemma getStoredToken_stored_record:
  assumes "accessible ls" and "t \<noteq> []" and "entry ls = Some (stringify_tokenData t now)"
  shows "getStoredToken ls = (Some (JString t), ls)"
proof -
  have "stringify_tokenData t now \<noteq> []"
    by (simp add: stringify_tokenData_def)
  then show ?thesis
    using assms by (simp add: getStoredToken_def getItem_def JSON_parse_stringify_tokenData truthy_opt_def)
qed


section \<open>The request gateway\<close>






text \<open>
  \<^verbatim>\<open>AuthService.login\<close> validates first: \<^verbatim>\<open>validateCredentials\<close> throws on an empty
  username and on an empty password.
\<close>

lemma validateCredentials_empty_field:
  assumes "get_prop c ''username'' = Some (JString []) \<or> get_prop c ''password'' = Some (JString [])"
  shows "validateCredentials (Some c) \<noteq> None"
  using assms
  by (auto simp: validateCredentials_def required_string_def split: option.splits json.splits)

lemma request_respond_auth_failure:
  assumes "status r = 401 \<or> status r = 403" and "isAuthenticated (auth w) \<longrightarrow> listenerSet w"
  shows "fst (request_respond url (Resolves r) w) = Inl (Error (''Authentication failed: '' @ digits_of (status r)))"
    and "auth_events (snd (request_respond url (Resolves r) w)) = auth_events w @ [(status r, url)]"
    and "cleared (snd (request_respond url (Resolves r) w))"
    and "sent (snd (request_respond url (Resolves r) w)) = sent w"
  using assms
  by (auto simp: request_respond_def dispatchEvent_auth_error_def Let_def cleared_def)

lemma request_respond_keeps_cleared:
  "cleared w \<Longrightarrow> cleared (snd (request_respond url fr w))"
  by (auto simp: request_respond_def dispatchEvent_auth_error_def Let_def cleared_def
      split: fetch_result.splits)

lemma request_respond_keeps_listener_guard:
  "isAuthenticated (auth w) \<longrightarrow> listenerSet w \<Longrightarrow>
   isAuthenticated (auth (snd (request_respond url fr w))) \<longrightarrow> listenerSet (snd (request_respond url fr w))"
  by (auto simp: request_respond_def dispatchEvent_auth_error_def Let_def
      split: fetch_result.splits)

lemma respond_all_keeps_cleared: "cleared w \<Longrightarrow> cleared (respond_all answers w)"
proof (induction answers arbitrary: w)
  case Nil
  then show ?case by simp
next
  case (Cons a answers)
  obtain u fr where "a = (u, fr)"
    by (cases a)
  then show ?case
    using Cons by (simp add: request_respond_keeps_cleared)
qed

lemma respond_all_auth_failure:
  assumes "(url, Resolves r) \<in> set answers" and "status r = 401 \<or> status r = 403"
    and "isAuthenticated (auth w) \<longrightarrow> listenerSet w"
  shows "cleared (respond_all answers w)"
  using assms(1,3)
proof (induction answers arbitrary: w)
  case Nil
  then show ?case by simp
next
  case (Cons a answers)
  obtain u fr where a: "a = (u, fr)"
    by (cases a)
  show ?case
  proof (cases "a = (url, Resolves r)")
    case True
    then have "cleared (snd (request_respond url (Resolves r) w))"
      using request_respond_auth_failure(3) [OF assms(2) Cons.prems(2)] by simp
    then show ?thesis
      using True by (simp add: respond_all_keeps_cleared)
  next
    case False
    then have "(url, Resolves r) \<in> set answers"
      using Cons.prems(1) by simp
    then show ?thesis
      using Cons.IH [OF _ request_respond_keeps_listener_guard [OF Cons.prems(2)]] a by simp
  qed
qed

section \<open>The store dispatch and the two halves of a request\<close>

lemma authReducer_storage:
  "storage (authReducer a w) = (if a = ClearAuthToken then snd (clearStoredToken (storage w)) else storage w)"
  by (cases a) simp_all

lemma authReducer_listenerSet [simp]: "listenerSet (authReducer a w) = listenerSet w"
  by (cases a) simp_all

lemma listenerSet_dispatch [simp]: "listenerSet (dispatch rt now a w) = True"
  by (simp add: dispatch_def)

lemma consistent_listenerSet_update [simp]: "consistent (w\<lparr>listenerSet := b\<rparr>) = consistent w"
  by (simp add: consistent_def)

lemma consistent_sent_update [simp]: "consistent (w\<lparr>sent := s\<rparr>) = consistent w"
  by (simp add: consistent_def)

lemma consistent_console_update [simp]: "consistent (w\<lparr>console := c\<rparr>) = consistent w"
  by (simp add: consistent_def)

lemma consistent_auth_events_update [simp]: "consistent (w\<lparr>auth_events := c\<rparr>) = consistent w"
  by (simp add: consistent_def)

lemma consistent_dispatch_clearAuthToken [simp]: "consistent (dispatch_clearAuthToken w)"
  by (simp add: consistent_def)

lemma consistent_dispatch_checked:
  assumes "actionsToCheck a"
    and "isAuthenticated (auth (authReducer a w)) = fst (hasStoredToken (storage w))"
  shows "consistent (dispatch rt now a w)"
proof -
  have st: "storage (authReducer a w) = storage w"
    using assms(1) by (cases a) simp_all
  obtain expired ls where e: "isTokenExpired rt now maxAge24h (storage w) = (expired, ls)"
    by (cases "isTokenExpired rt now maxAge24h (storage w)")
  then have ls: "ls = snd (getTokenData (storage w))"
    using snd_isTokenExpired [of rt now maxAge24h "storage w"] by simp
  show ?thesis
  proof (cases expired)
    case True
    then show ?thesis
      using assms(1) e st by (simp add: dispatch_def tokenValidationMiddleware_def)
  next
    case False
    then show ?thesis
      using assms e st ls by (simp add: dispatch_def tokenValidationMiddleware_def consistent_def)
  qed
qed

lemma dispatch_unchecked:
  "\<not> actionsToCheck a \<Longrightarrow> dispatch rt now a w = (authReducer a w)\<lparr>listenerSet := True\<rparr>"
  by (simp add: dispatch_def tokenValidationMiddleware_def)

lemma consistent_dispatch_rejected [simp]:
  "fst (hasStoredToken (storage w)) = False \<Longrightarrow> consistent (dispatch rt now (LoginRejected m) w)"
  by (simp add: dispatch_unchecked consistent_def)

lemma consistent_dispatch_LogoutFulfilled [simp]:
  "fst (hasStoredToken (storage w)) = False \<Longrightarrow> consistent (dispatch rt now LogoutFulfilled w)"
  by (simp add: dispatch_unchecked consistent_def)

lemma consistent_dispatch_neutral:
  "a = LoginPending \<or> a = LogoutPending \<or> a = InitPending \<or> a = ClearAuthError \<or> a = OtherAction ty \<Longrightarrow>
   consistent (dispatch rt now a w) = consistent w"
  by (auto simp: dispatch_unchecked consistent_def)

lemma storage_dispatch_neutral:
  "a = LoginPending \<or> a = LogoutPending \<or> a = InitPending \<or> a = ClearAuthError \<or> a = OtherAction ty \<Longrightarrow>
   storage (dispatch rt now a w) = storage w"
  by (auto simp: dispatch_unchecked)

text \<open>The effect of the two halves of a request on the storage and the listener.\<close>

lemma request_prepare_effect:
  "\<exists>ls. snd (request_prepare rt url options w) = w\<lparr>storage := ls\<rparr> \<and>
        fst (hasStoredToken ls) = fst (hasStoredToken (storage w))"
proof (cases "\<not> skipAuth options \<and> \<not> isLoginRequest url")
  case True
  then have "snd (request_prepare rt url options w) = w\<lparr>storage := snd (getStoredToken (storage w))\<rparr>"
    by (auto simp: request_prepare_def Let_def split: prod.splits option.splits)
  then show ?thesis
    by (intro exI [of _ "snd (getStoredToken (storage w))"]) simp
next
  case False
  then have "snd (request_prepare rt url options w) = w\<lparr>storage := storage w\<rparr>"
    by (auto simp: request_prepare_def Let_def)
  then show ?thesis
    by (intro exI [of _ "storage w"]) simp
qed

lemma request_prepare_consistent [simp]:
  "consistent (snd (request_prepare rt url options w)) = consistent w"
  using request_prepare_effect [of rt url options w] by (auto simp: consistent_def)

lemma request_prepare_listenerSet [simp]:
  "listenerSet (snd (request_prepare rt url options w)) = listenerSet w"
  using request_prepare_effect [of rt url options w] by auto

lemma request_prepare_hasStoredToken [simp]:
  "fst (hasStoredToken (storage (snd (request_prepare rt url options w)))) = fst (hasStoredToken (storage w))"
  using request_prepare_effect [of rt url options w] by auto

lemma request_prepare_isAuthenticated [simp]:
  "isAuthenticated (auth (snd (request_prepare rt url options w))) = isAuthenticated (auth w)"
  using request_prepare_effect [of rt url options w] by auto


lemma request_respond_listenerSet:
  "listenerSet w \<Longrightarrow> listenerSet (snd (request_respond url fr w))"
  by (auto simp: request_respond_def dispatchEvent_auth_error_def Let_def split: fetch_result.splits)

lemma request_respond_Inr_unchanged:
  "request_respond url fr w = (Inr resp, w') \<Longrightarrow> w' = w"
  by (auto simp: request_respond_def Let_def split: fetch_result.splits if_splits)

lemma parseResponseBody_world:
  "snd (parseResponseBody rt resp w) = w \<or>
   snd (parseResponseBody rt resp w)
     = w\<lparr>console := console w @ [(''Response text (first 200 chars):'', take 200 (body_text resp))]\<rparr>"
  by (simp add: parseResponseBody_def invalid_json_def Let_def split: option.splits)

lemma parseResponseBody_storage [simp]:
  "storage (snd (parseResponseBody rt resp w)) = storage w"
  using parseResponseBody_world [of rt resp w] by auto

lemma parseResponseBody_auth [simp]:
  "auth (snd (parseResponseBody rt resp w)) = auth w"
  using parseResponseBody_world [of rt resp w] by auto

lemma parseResponseBody_listenerSet [simp]:
  "listenerSet (snd (parseResponseBody rt resp w)) = listenerSet w"
  using parseResponseBody_world [of rt resp w] by auto

lemma parseResponseBody_consistent [simp]:
  "consistent (snd (parseResponseBody rt resp w)) = consistent w"
  by (simp add: consistent_def)

section \<open>Completion of login, logout and startup validation\<close>

lemma settled_login_catch [simp]: "settled (login_catch e w)"
  by (simp add: login_catch_def settled_def Let_def)

lemma listenerSet_login_catch [simp]: "listenerSet (snd (login_catch e w)) = listenerSet w"
  by (simp add: login_catch_def Let_def)



lemma listenerSet_loginUser_settle [simp]: "listenerSet (loginUser_settle rt now outcome) = True"
  by (simp add: loginUser_settle_def split: prod.splits sum.splits)




lemma consistent_initializeAuth_settle:
  assumes "validated outcome"
  shows "consistent (initializeAuth_settle rt now outcome)"
proof -
  obtain valid usr w where o: "outcome = ((valid, usr), w)"
    by (cases outcome) auto
  show ?thesis
  proof (cases valid)
    case True
    obtain tok ls where g: "getStoredToken (storage w) = (tok, ls)"
      by (cases "getStoredToken (storage w)")
    then have "fst (hasStoredToken ls) = truthy_opt tok"
      using getStoredToken_idem [of "storage w"] by (simp add: fst_hasStoredToken)
    then have "consistent (dispatch rt now (InitFulfilled tok usr) (w\<lparr>storage := ls\<rparr>))"
      by (intro consistent_dispatch_checked) simp_all
    with o True g show ?thesis
      by (simp add: initializeAuth_settle_def)
  next
    case False
    with assms o have "fst (hasStoredToken (storage w)) = False"
      by (simp add: validated_def)
    then have "consistent (dispatch rt now (InitFulfilled None None) w)"
      by (intro consistent_dispatch_checked) (simp_all add: truthy_opt_def)
    with o False show ?thesis
      by (simp add: initializeAuth_settle_def)
  qed
qed

lemma listenerSet_initializeAuth_settle [simp]: "listenerSet (initializeAuth_settle rt now outcome) = True"
  by (simp add: initializeAuth_settle_def split: prod.splits)


section \<open>Every event keeps the session consistent\<close>

lemma consistent_clear_local_fulfilled [simp]:
  "consistent (dispatch rt now LogoutFulfilled (clear_local w))"
  by (simp add: clear_local_def)

lemma listenerSet_clear_local [simp]: "listenerSet (clear_local w) = listenerSet w"
  by (simp add: clear_local_def)

lemma consistent_getStoredToken_update [simp]:
  "consistent (w\<lparr>storage := snd (getStoredToken (storage w))\<rparr>) = consistent w"
  by (simp add: consistent_def)


lemma listenerSet_loginUser_start: "listenerSet (snd (loginUser_start rt now credentials w))"
proof -
  obtain res w1 where p: "login_prepare rt credentials (dispatch rt now LoginPending w) = (res, w1)"
    by (cases "login_prepare rt credentials (dispatch rt now LoginPending w)")
  then have "w1 = snd (request_prepare rt LOGIN (post_options credentials True) (dispatch rt now LoginPending w))"
    by (simp add: login_prepare_def)
  then have "listenerSet w1"
    by simp
  then show ?thesis
    using p by (cases res) (simp_all add: loginUser_start_def)
qed

lemma logout_start_cases:
  "(fst (logout_start rt w) = None \<and> (\<exists>w'. snd (logout_start rt w) = clear_local w' \<and> listenerSet w' = listenerSet w)) \<or>
   (fst (logout_start rt w) \<noteq> None \<and> consistent (snd (logout_start rt w)) = consistent w \<and>
    listenerSet (snd (logout_start rt w)) = listenerSet w)"
proof -
  obtain tok ls where g: "getStoredToken (storage w) = (tok, ls)"
    by (cases "getStoredToken (storage w)")
  then have ls: "ls = snd (getStoredToken (storage w))"
    by simp
  let ?w1 = "w\<lparr>storage := ls\<rparr>"
  have c1: "consistent ?w1 = consistent w" "listenerSet ?w1 = listenerSet w"
    by (simp_all add: ls)
  obtain res w2 where p: "request_prepare rt LOGOUT (post_options (Some (JObject [])) False) ?w1 = (res, w2)"
    by (cases "request_prepare rt LOGOUT (post_options (Some (JObject [])) False) ?w1")
  then have w2: "w2 = snd (request_prepare rt LOGOUT (post_options (Some (JObject [])) False) ?w1)"
    by simp
  have c2: "consistent w2 = consistent w" "listenerSet w2 = listenerSet w"
    using c1 by (simp_all add: w2)
  show ?thesis
  proof (cases "truthy_opt tok")
    case False
    then have "logout_start rt w = (None, clear_local ?w1)"
      using g by (simp add: logout_start_def)
    then show ?thesis
      using c1 by auto
  next
    case True
    show ?thesis
    proof (cases res)
      case (Inl e)
      then have "logout_start rt w = (None, clear_local w2)"
        using g True p by (simp add: logout_start_def)
      then show ?thesis
        using c2 by auto
    next
      case (Inr req)
      then have "logout_start rt w = (Some req, w2\<lparr>sent := sent w2 @ [req]\<rparr>)"
        using g True p by (simp add: logout_start_def)
      then show ?thesis
        using c2 by simp
    qed
  qed
qed


lemma listenerSet_logoutUser_start: "listenerSet (snd (logoutUser_start rt now w))"
proof -
  let ?w0 = "dispatch rt now LogoutPending w"
  from logout_start_cases [of rt ?w0] show ?thesis
  proof
    assume "fst (logout_start rt ?w0) = None \<and> (\<exists>w'. snd (logout_start rt ?w0) = clear_local w' \<and> listenerSet w' = listenerSet ?w0)"
    then obtain w' where "logout_start rt ?w0 = (None, clear_local w')"
      by (cases "logout_start rt ?w0") auto
    then show ?thesis
      by (simp add: logoutUser_start_def)
  next
    assume a: "fst (logout_start rt ?w0) \<noteq> None \<and> consistent (snd (logout_start rt ?w0)) = consistent ?w0 \<and>
      listenerSet (snd (logout_start rt ?w0)) = listenerSet ?w0"
    then obtain req w1 where l: "logout_start rt ?w0 = (Some req, w1)"
      by (cases "logout_start rt ?w0") auto
    with a show ?thesis
      by (simp add: logoutUser_start_def)
  qed
qed

lemma validateToken_start_cases:
  "(\<exists>result w1. validateToken_start rt w = (Inr result, w1) \<and> validated (result, w1)) \<or>
   (\<exists>req w1. validateToken_start rt w = (Inl req, w1) \<and> consistent w1 = consistent w \<and>
      listenerSet w1 = listenerSet w)"
proof -
  obtain tok ls where g: "getStoredToken (storage w) = (tok, ls)"
    by (cases "getStoredToken (storage w)")
  then have ls: "ls = snd (getStoredToken (storage w))" and tok: "tok = fst (getStoredToken (storage w))"
    by simp_all
  let ?w1 = "w\<lparr>storage := ls\<rparr>"
  have c1: "consistent ?w1 = consistent w" "listenerSet ?w1 = listenerSet w"
    by (simp_all add: ls)
  obtain res w2 where p: "request_prepare rt VALIDATE_TOKEN (get_options False) ?w1 = (res, w2)"
    by (cases "request_prepare rt VALIDATE_TOKEN (get_options False) ?w1")
  then have w2: "w2 = snd (request_prepare rt VALIDATE_TOKEN (get_options False) ?w1)"
    by simp
  have c2: "consistent w2 = consistent w" "listenerSet w2 = listenerSet w"
    using c1 by (simp_all add: w2)
  show ?thesis
  proof (cases "truthy_opt tok")
    case False
    then have "fst (hasStoredToken ls) = False"
      by (simp add: ls tok fst_hasStoredToken)
    then have "validated ((False, None), ?w1)"
      by (simp add: validated_def)
    moreover have "validateToken_start rt w = (Inr (False, None), ?w1)"
      using g False by (simp add: validateToken_start_def)
    ultimately show ?thesis
      by blast
  next
    case True
    show ?thesis
    proof (cases res)
      case (Inl e)
      then have "validateToken_start rt w = (Inr (False, None), clear_local w2)"
        using g True p by (simp add: validateToken_start_def)
      moreover have "validated ((False, None), clear_local w2)"
        by (simp add: validated_def clear_local_def)
      ultimately show ?thesis
        by blast
    next
      case (Inr req)
      then have "validateToken_start rt w = (Inl req, w2\<lparr>sent := sent w2 @ [req]\<rparr>)"
        using g True p by (simp add: validateToken_start_def)
      moreover have "consistent (w2\<lparr>sent := sent w2 @ [req]\<rparr>) = consistent w"
        "listenerSet (w2\<lparr>sent := sent w2 @ [req]\<rparr>) = listenerSet w"
        using c2 by simp_all
      ultimately show ?thesis
        by blast
    qed
  qed
qed

lemma initializeAuth_start_step:
  "listenerSet (snd (initializeAuth_start rt now w)) \<and>
   (consistent w \<or> fst (initializeAuth_start rt now w) = None \<longrightarrow> consistent (snd (initializeAuth_start rt now w)))"
proof -
  let ?w0 = "dispatch rt now InitPending w"
  have c: "consistent ?w0 = consistent w"
    by (simp add: consistent_dispatch_neutral)
  from validateToken_start_cases [of rt ?w0] show ?thesis
  proof
    assume "\<exists>result w1. validateToken_start rt ?w0 = (Inr result, w1) \<and> validated (result, w1)"
    then obtain result w1 where "validateToken_start rt ?w0 = (Inr result, w1)" "validated (result, w1)"
      by blast
    then show ?thesis
      by (simp add: initializeAuth_start_def consistent_initializeAuth_settle)
  next
    assume "\<exists>req w1. validateToken_start rt ?w0 = (Inl req, w1) \<and> consistent w1 = consistent ?w0 \<and>
      listenerSet w1 = listenerSet ?w0"
    then obtain req w1 where "validateToken_start rt ?w0 = (Inl req, w1)" "consistent w1 = consistent ?w0"
      "listenerSet w1 = listenerSet ?w0"
      by blast
    then show ?thesis
      using c by (simp add: initializeAuth_start_def)
  qed
qed

lemma loadMode_settle_step [simp]:
  "listenerSet (loadMode_settle rt now outcome) = True"
  "consistent (loadMode_settle rt now outcome) = consistent (snd outcome)"
  by (auto simp: loadMode_settle_def consistent_dispatch_neutral split: prod.splits sum.splits)

lemma loadMode_start_step:
  "listenerSet (snd (loadMode_start rt now w)) \<and>
   (consistent w \<longrightarrow> consistent (snd (loadMode_start rt now w)))"
proof -
  let ?w0 = "dispatch rt now (OtherAction ''mode/loadMode/pending'') w"
  have c: "consistent ?w0 = consistent w"
    by (simp add: consistent_dispatch_neutral)
  obtain res w1 where p: "request_prepare rt MODE (get_options False) ?w0 = (res, w1)"
    by (cases "request_prepare rt MODE (get_options False) ?w0")
  then have w1: "w1 = snd (request_prepare rt MODE (get_options False) ?w0)"
    by simp
  have "consistent w1 = consistent w" "listenerSet w1"
    using c by (simp_all add: w1)
  then show ?thesis
    using p by (cases res) (simp_all add: loadMode_start_def)
qed

lemma parseResponse_step [simp]:
  "consistent (snd (parseResponse rt resp w)) = consistent w"
  "listenerSet (snd (parseResponse rt resp w)) = listenerSet w"
  by (simp_all add: parseResponse_def)


lemma step_listenerSet: "listenerSet (step rt now e w)"
proof (cases e)
  case (LoginStart credentials)
  then show ?thesis by (simp add: listenerSet_loginUser_start)
next
  case (LoginFinish now_store fr)
  then show ?thesis by (simp add: loginUser_finish_def)
next
  case LogoutStart
  then show ?thesis by (simp add: listenerSet_logoutUser_start)
next
  case (LogoutFinish fr)
  then show ?thesis by (simp add: logoutUser_finish_def)
next
  case InitStart
  then show ?thesis by (simp add: initializeAuth_start_step)
next
  case (InitFinish fr)
  then show ?thesis by (simp add: initializeAuth_finish_def)
next
  case LoadModeStart
  then show ?thesis by (simp add: loadMode_start_step)
next
  case (LoadModeFinish fr)
  then show ?thesis by (simp add: loadMode_finish_def)
next
  case AckError
  then show ?thesis by simp
qed



lemma run_listener_guard:
  "isAuthenticated (auth (run rt es (initial_world ls))) \<longrightarrow> listenerSet (run rt es (initial_world ls))"
proof (cases es)
  case Nil
  then show ?thesis
    by (simp add: initial_world_def initialState_def)
next
  case (Cons a es')
  obtain now e where a: "a = (now, e)"
    by (cases a)
  have "listenerSet (run rt es' (step rt now e (initial_world ls)))"
  proof (induction es' arbitrary: now e rule: rev_induct)
    case Nil
    then show ?case by (simp add: step_listenerSet)
  next
    case (snoc x xs)
    obtain now' e' where x: "x = (now', e')"
      by (cases x)
    have "run rt (xs @ [x]) w = step rt now' e' (run rt xs w)" for w
      by (induction xs arbitrary: w) (auto simp: x)
    then show ?case
      by (simp add: step_listenerSet)
  qed
  then show ?thesis
    using Cons a by simp
qed

section \<open>Scenario: startup with a stored token\<close>

lemma getStoredToken_stored_session: "getStoredToken stored_session = (Some (JString ''abc''), stored_session)"
  by (rule getStoredToken_stored_record) (simp_all add: stored_session_def)

lemma getTokenData_stored_session:
  "getTokenData stored_session
   = (Some (JObject [(''token'', JString ''abc''), (''timestamp'', JNumber 1700000000000)]), stored_session)"
proof -
  have "stringify_tokenData ''abc'' 1700000000000 \<noteq> []"
    by (simp add: stringify_tokenData_def)
  then show ?thesis
    by (simp add: getTokenData_def getItem_def stored_session_def JSON_parse_stringify_tokenData truthy_opt_def)
qed

lemma isTokenExpired_stored_session:
  "isTokenExpired plain_runtime 1700000000500 maxAge24h stored_session = (False, stored_session)"
  by (simp add: isTokenExpired_def getTokenAge_def getTokenData_stored_session ToNumber_def maxAge24h_def)

lemma JSON_parse_validate_ok:
  "JSON_parse ''{\"user\":{\"username\":\"alice\"}}'' = Some (JObject [(''user'', JObject [(''username'', JString ''alice'')])])"
  by (simp add: json_eval)

lemma startup_with_stored_token:
  "step plain_runtime 1700000000500 (InitFinish (Resolves validate_ok)) (initial_world stored_session) = resumed_world"
  by (simp add: initializeAuth_finish_def validateToken_finish_def request_respond_def validate_ok_def ok_def
      parseResponseBody_def JSON_parse_validate_ok read_prop_def initializeAuth_settle_def initial_world_def
      getStoredToken_stored_session dispatch_def tokenValidationMiddleware_def isTokenExpired_stored_session
      initialState_def resumed_world_def truthy_opt_def)

section \<open>The session invariant and external invalidation\<close>




text \<open>
  Claim C1: in every state \<open>w\<close> the application reaches, an answer with status 401 or 403 makes
  \<^verbatim>\<open>request\<close> fail with \<^verbatim>\<open>Authentication failed: <status>\<close>, record an \<^verbatim>\<open>auth-error\<close> event
  with the status and the URL, and leave the store without a token and the session
  unauthenticated; and when several answers are handled in any order and one of them is
  such an answer, the store has no token and the session is unauthenticated at the end.
\<close>

theorem auth_failure_invalidates_session:
  assumes "status r = 401 \<or> status r = 403"
    and "w = run rt es (initial_world ls)"
    and "(url, Resolves r) \<in> set answers"
  shows "fst (request_respond url (Resolves r) w) = Inl (Error (''Authentication failed: '' @ digits_of (status r))) \<and>
         auth_events (snd (request_respond url (Resolves r) w)) = auth_events w @ [(status r, url)] \<and>
         isAuthenticated (auth (snd (request_respond url (Resolves r) w))) = False \<and>
         fst (hasStoredToken (storage (snd (request_respond url (Resolves r) w)))) = False \<and>
         isAuthenticated (auth (respond_all answers w)) = False \<and>
         fst (hasStoredToken (storage (respond_all answers w))) = False"
proof -
  have guard: "isAuthenticated (auth w) \<longrightarrow> listenerSet w"
    unfolding assms(2) by (rule run_listener_guard)
  have "cleared (snd (request_respond url (Resolves r) w))"
    by (rule request_respond_auth_failure(3) [OF assms(1) guard])
  moreover have "cleared (respond_all answers w)"
    by (rule respond_all_auth_failure [OF assms(3) assms(1) guard])
  ultimately show ?thesis
    using request_respond_auth_failure(1,2) [OF assms(1) guard, of url]
    by (simp add: cleared_def)
qed

text \<open>
  Witness for C1: an authenticated session with a stored token, and a 401 on \<^verbatim>\<open>/api/mode\<close>,
  alone and among three answers.
\<close>

theorem auth_failure_invalidates_session_witness:
  "status unauthorized = 401 \<and>
   run plain_runtime [(1700000000500, InitFinish (Resolves validate_ok))] (initial_world stored_session) = resumed_world \<and>
   isAuthenticated (auth resumed_world) = True \<and> fst (hasStoredToken (storage resumed_world)) = True \<and>
   fst (request_respond MODE (Resolves unauthorized) resumed_world) = Inl (Error ''Authentication failed: 401'') \<and>
   auth_events (snd (request_respond MODE (Resolves unauthorized) resumed_world)) = [(401, MODE)] \<and>
   isAuthenticated (auth (snd (request_respond MODE (Resolves unauthorized) resumed_world))) = False \<and>
   fst (hasStoredToken (storage (snd (request_respond MODE (Resolves unauthorized) resumed_world)))) = False \<and>
   isAuthenticated (auth (respond_all [(STATUS, Resolves validate_ok), (MODE, Resolves unauthorized),
      (MODE, Rejects (TypeError ''Failed to fetch''))] resumed_world)) = False \<and>
   fst (hasStoredToken (storage (respond_all [(STATUS, Resolves validate_ok), (MODE, Resolves unauthorized),
      (MODE, Rejects (TypeError ''Failed to fetch''))] resumed_world))) = False"
proof -
  have s: "status unauthorized = 401 \<or> status unauthorized = 403"
    by (simp add: unauthorized_def)
  have r: "resumed_world = run plain_runtime [(1700000000500, InitFinish (Resolves validate_ok))] (initial_world stored_session)"
    using startup_with_stored_token by simp
  have m: "(MODE, Resolves unauthorized) \<in> set [(STATUS, Resolves validate_ok), (MODE, Resolves unauthorized),
      (MODE, Rejects (TypeError ''Failed to fetch''))]"
    by simp
  have d: "digits_of 401 = ''401''"
    by (simp add: digits_of.simps digit_char_def char_of_eq_iff)
  have pre: "isAuthenticated (auth resumed_world) = True" "fst (hasStoredToken (storage resumed_world)) = True"
    "auth_events resumed_world = []"
    by (simp_all add: resumed_world_def fst_hasStoredToken getStoredToken_stored_session truthy_opt_def)
  from auth_failure_invalidates_session [OF s r m] show ?thesis
    using r pre d by (simp add: unauthorized_def)
qed

section \<open>The response body parser\<close>

lemma toString16_small: "n < 16 \<Longrightarrow> toString16 n = [hex_char n]"
  by (simp add: toString16.simps)

lemma toString16_two: "16 \<le> n \<Longrightarrow> n < 256 \<Longrightarrow> toString16 n = [hex_char (n div 16), hex_char (n mod 16)]"
  by (subst toString16.simps) (simp add: toString16_small less_mult_imp_div_less)

lemma escape_control_eq:
  "escape_control c =
     (if charCode c < 32
      then [CHR 0x5C, CHR ''u'', CHR ''0'', CHR ''0'', hex_char (charCode c div 16), hex_char (charCode c mod 16)]
      else [c])"
proof (cases "charCode c < 16")
  case True
  then have "hex_char (charCode c div 16) = CHR ''0''"
    by (simp add: hex_char_def char_of_eq_iff)
  with True show ?thesis
    by (simp add: escape_control_def padStart4_def toString16_small numeral_3_eq_3)
next
  case False
  then show ?thesis
    by (auto simp: escape_control_def padStart4_def toString16_two numeral_2_eq_2)
qed

lemma cleanJsonString_no_control: "list_all (\<lambda>c. 32 \<le> charCode c) (cleanJsonString s)"
proof -
  have "list_all (\<lambda>c. 32 \<le> charCode c) (escape_control c)" for c
    by (auto simp: escape_control_eq hex_char_def charCode_char_of charCode_def)
  then show ?thesis
    by (induction s) (simp_all add: cleanJsonString_def)
qed






end
